theory Spec2Isabelle
  imports Main "HOL-Library.Sublist"
begin

section \<open>Strings\<close>

text \<open>
  A JavaScript string is modelled as a \<open>string\<close>: one \<open>char\<close> per code unit, which
  covers the code units below 256. Indices count code units, as the string methods of the
  source do.
\<close>

text \<open>\<open>s.lastIndexOf(c)\<close> for a needle of one character; \<open>None\<close> stands for \<open>-1\<close>.\<close>

primrec lastIndexOf :: "string \<Rightarrow> char \<Rightarrow> nat option" where
  "lastIndexOf [] c = None"
| "lastIndexOf (x # xs) c =
     (case lastIndexOf xs c of
        Some i \<Rightarrow> Some (Suc i)
      | None \<Rightarrow> if x = c then Some 0 else None)"

text \<open>\<open>s.startsWith(p)\<close> and \<open>s.includes(t)\<close>.\<close>

definition startsWith :: "string \<Rightarrow> string \<Rightarrow> bool" where
  "startsWith s p = prefix p s"

definition str_includes :: "string \<Rightarrow> string \<Rightarrow> bool" where
  "str_includes s t = sublist t s"

text \<open>\<open>s.split(c)\<close> for a separator of one character, and \<open>xs.join(sep)\<close>.\<close>

fun splitOn :: "char \<Rightarrow> string \<Rightarrow> string list" where
  "splitOn c [] = [[]]"
| "splitOn c (x # xs) =
     (if x = c then [] # splitOn c xs
      else case splitOn c xs of
        [] \<Rightarrow> [[x]]
      | y # ys \<Rightarrow> (x # y) # ys)"

fun joinWith :: "string \<Rightarrow> string list \<Rightarrow> string" where
  "joinWith sep [] = []"
| "joinWith sep [x] = x"
| "joinWith sep (x # y # ys) = x @ sep @ joinWith sep (y # ys)"

text \<open>The characters the source names by escape sequences.\<close>

definition backslash :: char where
  "backslash = CHR 0x5C"

definition quote :: char where
  "quote = CHR 0x27"

definition nul :: char where
  "nul = CHR 0x00"

section \<open>The path module\<close>

text \<open>
  Modelled from the spec: \<open>path.posix.normalize\<close>, \<open>path.resolve\<close>, \<open>path.dirname\<close> and
  \<open>path.sep\<close> belong to the Node.js runtime and are not files of the repository. The spec
  asks for POSIX lexical normalization, which collapses \<open>.\<close> segments and redundant
  separators and takes \<open>a/b/../c\<close> to \<open>a/c\<close>; the definitions below follow the runtime's
  algorithm on a POSIX platform, segment by segment. \<open>normStep\<close> handles one segment:
  \<open>res\<close> holds the segments kept so far, the last one first. An empty segment and \<open>.\<close> are
  dropped; \<open>..\<close> removes the last kept segment unless there is none or it is \<open>..\<close> itself,
  in which case \<open>..\<close> is kept when the path is relative and dropped when it is absolute.
\<close>

definition sep :: char where
  "sep = CHR ''/''"

definition normStep :: "bool \<Rightarrow> string list \<Rightarrow> string \<Rightarrow> string list" where
  "normStep allowAboveRoot res seg =
     (if seg = [] \<or> seg = ''.'' then res
      else if seg = ''..'' then
        (if res \<noteq> [] \<and> hd res \<noteq> ''..'' then tl res
         else if allowAboveRoot then ''..'' # res
         else res)
      else seg # res)"

definition normalizeString :: "string \<Rightarrow> bool \<Rightarrow> string" where
  "normalizeString path allowAboveRoot =
     joinWith ''/'' (rev (foldl (normStep allowAboveRoot) [] (splitOn (CHR ''/'') path)))"

definition normalize_posix :: "string \<Rightarrow> string" where
  "normalize_posix path =
     (if path = [] then ''.''
      else
        let isAbsolute = (hd path = CHR ''/'');
            trailingSeparator = (last path = CHR ''/'');
            p = normalizeString path (\<not> isAbsolute)
        in if p = [] then
             (if isAbsolute then ''/'' else if trailingSeparator then ''./'' else ''.'')
           else (if isAbsolute then ''/'' else []) @ p @ (if trailingSeparator then ''/'' else []))"

text \<open>
  \<open>path.resolve(...args)\<close>: the arguments are read from the right until one is absolute,
  the working directory \<open>cwd\<close> being read after the leftmost; empty arguments are skipped.
\<close>

fun resolveArgs :: "string list \<Rightarrow> string \<Rightarrow> string \<times> bool" where
  "resolveArgs [] resolvedPath = (resolvedPath, False)"
| "resolveArgs (path # more) resolvedPath =
     (if path = [] then resolveArgs more resolvedPath
      else if hd path = CHR ''/'' then (path @ ''/'' @ resolvedPath, True)
      else resolveArgs more (path @ ''/'' @ resolvedPath))"

definition resolve :: "string \<Rightarrow> string list \<Rightarrow> string" where
  "resolve cwd args =
     (case resolveArgs (rev args @ [cwd]) [] of
        (resolvedPath, resolvedAbsolute) \<Rightarrow>
          let p = normalizeString resolvedPath (\<not> resolvedAbsolute)
          in if resolvedAbsolute then ''/'' @ p
             else if p \<noteq> [] then p else ''.'')"

section \<open>The reference parser\<close>

record RemoteFile =
  repo :: string
  ref :: string
  filePath :: string
  destPath :: string
  commitSha :: "string option"

text \<open>
  A thrown value: a \<open>CliError\<close> with its code and message, or another \<open>Error\<close> of the
  runtime with its message.
\<close>

datatype error = CliError string string | Error string

definition normalizeAndValidateRelativePath :: "string \<Rightarrow> error + string" where
  "normalizeAndValidateRelativePath inputPath =
     (let forward = map (\<lambda>c. if c = backslash then CHR ''/'' else c) inputPath;
          normalized = normalize_posix forward
      in if startsWith normalized ''..'' \<or> str_includes normalized ''/../'' \<or> normalized = ''..'' then
           Inl (CliError ''INVALID_PATH''
             (''Invalid path '' @ [quote] @ inputPath @ [quote] @
              '': parent directory traversal is not allowed.''))
         else if startsWith normalized ''/'' \<or> startsWith normalized ''~'' then
           Inl (CliError ''INVALID_PATH''
             (''Invalid path '' @ [quote] @ inputPath @ [quote] @
              '': absolute paths are not allowed.''))
         else if str_includes normalized [nul] then
           Inl (CliError ''INVALID_PATH''
             (''Invalid path '' @ [quote] @ inputPath @ [quote] @
              '': null byte is not allowed.''))
         else Inr normalized)"

definition parseRef :: "string \<Rightarrow> error + RemoteFile" where
  "parseRef input =
     (case lastIndexOf input (CHR '':'') of
        None \<Rightarrow>
          Inl (CliError ''INVALID_REF_FORMAT''
            (''Invalid ref '' @ [quote] @ input @ [quote] @ ''. Expected '' @ [quote] @
             ''<repo.git>@<ref>:<path>'' @ [quote]))
      | Some idx \<Rightarrow>
          let repoRef = take idx input;
              filePathRaw = drop (idx + 1) input;
              at = lastIndexOf repoRef (CHR ''@'');
              repo = (case at of None \<Rightarrow> repoRef | Some a \<Rightarrow> take a repoRef);
              ref = (case at of None \<Rightarrow> ''main'' | Some a \<Rightarrow> drop (a + 1) repoRef)
          in case normalizeAndValidateRelativePath filePathRaw of
               Inl e \<Rightarrow> Inl e
             | Inr safeRelPath \<Rightarrow>
                 Inr \<lparr>repo = repo, ref = ref, filePath = safeRelPath,
                      destPath = joinWith [sep] (splitOn (CHR ''/'') safeRelPath),
                      commitSha = None\<rparr>)"

section \<open>Numbers and white space in strings\<close>

text \<open>
  The decimal rendering of an integer in a template literal (for magnitudes below
  \<open>10^21\<close>, where JavaScript prints every digit).
\<close>

definition digitChar :: "nat \<Rightarrow> char" where
  "digitChar d = ''0123456789'' ! d"

function natToString :: "nat \<Rightarrow> string" where
  "natToString n = (if n < 10 then [digitChar n] else natToString (n div 10) @ [digitChar (n mod 10)])"
  by pat_completeness auto
termination
  by (relation "measure id") auto

declare natToString.simps [simp del]

definition numberToString :: "int \<Rightarrow> string" where
  "numberToString i = (if i < 0 then ''-'' @ natToString (nat (- i)) else natToString (nat i))"

text \<open>The class \<open>\s\<close> of a regular expression, among the code units below 256.\<close>

definition isWhiteSpace :: "char \<Rightarrow> bool" where
  "isWhiteSpace c =
     (c = CHR 0x09 \<or> c = CHR 0x0A \<or> c = CHR 0x0B \<or> c = CHR 0x0C \<or> c = CHR 0x0D \<or>
      c = CHR 0x20 \<or> c = CHR 0xA0)"

definition trim :: "string \<Rightarrow> string" where
  "trim s = rev (dropWhile isWhiteSpace (rev (dropWhile isWhiteSpace s)))"

section \<open>Redaction and logging\<close>

text \<open>
  \<open>input.replace(/:\/\/[^@\s]+@/g, '://***@')\<close>. A match starts at \<open>://\<close>, takes the
  longest run of characters other than \<open>@\<close> and white space, which must not be empty, and
  needs \<open>@\<close> right after the run; a shorter run cannot match, since the character after it
  belongs to the run. The search goes on after the match, or one character further when
  there is none.
\<close>

definition userinfoChar :: "char \<Rightarrow> bool" where
  "userinfoChar c = (c \<noteq> CHR ''@'' \<and> \<not> isWhiteSpace c)"

definition matchesUserinfo :: "string \<Rightarrow> bool" where
  "matchesUserinfo s =
     (take 3 s = ''://'' \<and> takeWhile userinfoChar (drop 3 s) \<noteq> [] \<and>
      dropWhile userinfoChar (drop 3 s) \<noteq> [] \<and>
      hd (dropWhile userinfoChar (drop 3 s)) = CHR ''@'')"

function redactSecrets :: "string \<Rightarrow> string" where
  "redactSecrets [] = []"
| "redactSecrets (c # cs) =
     (if matchesUserinfo (c # cs)
      then ''://***@'' @ redactSecrets (tl (dropWhile userinfoChar (drop 3 (c # cs))))
      else c # redactSecrets cs)"
  by pat_completeness auto
termination
proof (relation "measure length")
  show "wf (measure length)" by simp
next
  fix c :: char and cs :: string
  have "length (tl (dropWhile userinfoChar (drop 3 (c # cs)))) \<le> length (drop 3 (c # cs))"
    using length_dropWhile_le [of userinfoChar "drop 3 (c # cs)"] by simp
  then show "(tl (dropWhile userinfoChar (drop 3 (c # cs))), c # cs) \<in> measure length"
    by simp
next
  fix c :: char and cs :: string
  show "(cs, c # cs) \<in> measure length" by simp
qed

section \<open>The world outside the program\<close>

record FetchResult =
  input :: string
  success :: bool
  destFile :: "string option"
  errorCode :: "string option"
  errorMessage :: "string option"
  remote :: "RemoteFile option"

text \<open>
  What a run does that can be observed: a call of the external tool with its arguments, a
  line on standard output or standard error, the final JSON document (kept as the value
  handed to \<open>JSON.stringify\<close>, whose string fields are printed as they are), and a wait of
  some milliseconds.
\<close>

datatype event =
    Exec "string list"
  | Stdout string
  | Stderr string
  | StdoutJson "FetchResult list"
  | Wait int

datatype node = File string | Dir

text \<open>
  The state a run changes: the file tree (absolute path to file or directory), the number
  of calls of the external tool so far, and the events so far.
\<close>

record world =
  fs :: "string \<Rightarrow> node option"
  calls :: nat
  trace :: "event list"

text \<open>
  What a run is given and does not change: the outcome of the \<open>n\<close>-th call of
  \<open>execFileSync('git', args, ...)\<close> (the error message of the exception, or the bytes of
  standard output; a call killed at its timeout is a failure), the working directory, and
  the JSON codec of the manifest: \<open>manifestOfText\<close> is \<open>JSON.parse\<close> followed by the
  \<open>Array.isArray\<close> test of \<open>readManifest\<close>, with \<open>[]\<close> for text that does not parse or is
  no array, and \<open>textOfManifest\<close> is \<open>JSON.stringify(existing, null, 2)\<close>.
\<close>

record env =
  git :: "nat \<Rightarrow> string list \<Rightarrow> string + string"
  cwd :: string
  manifestOfText :: "string \<Rightarrow> RemoteFile list"
  textOfManifest :: "RemoteFile list \<Rightarrow> string"

definition emit :: "event \<Rightarrow> world \<Rightarrow> world" where
  "emit e w = w\<lparr>trace := trace w @ [e]\<rparr>"

record logger =
  quiet :: bool
  verbose :: bool

definition createLogger :: "bool \<Rightarrow> bool \<Rightarrow> logger" where
  "createLogger q v = \<lparr>quiet = q, verbose = v\<rparr>"

definition logger_log :: "logger \<Rightarrow> string \<Rightarrow> world \<Rightarrow> world" where
  "logger_log lg message w = (if \<not> quiet lg then emit (Stdout (redactSecrets message)) w else w)"

definition logger_warn :: "logger \<Rightarrow> string \<Rightarrow> world \<Rightarrow> world" where
  "logger_warn lg message w = (if \<not> quiet lg then emit (Stderr (redactSecrets message)) w else w)"

definition logger_error :: "logger \<Rightarrow> string \<Rightarrow> world \<Rightarrow> world" where
  "logger_error lg message w = emit (Stderr (redactSecrets message)) w"

definition logger_verbose :: "logger \<Rightarrow> string \<Rightarrow> world \<Rightarrow> world" where
  "logger_verbose lg message w =
     (if \<not> quiet lg \<and> verbose lg then emit (Stdout (redactSecrets message)) w else w)"

section \<open>The file system\<close>

text \<open>
  Modelled from the spec: \<open>existsSync\<close>, \<open>mkdirSync\<close>, \<open>readFileSync\<close> and \<open>writeFileSync\<close>
  belong to the Node.js runtime. A path exists when the tree has a node for it. A file is
  written when its path is no directory and its parent is one. A recursive \<open>mkdirSync\<close>
  creates the directory and those above it, and fails when one of them is a file. A call
  that fails throws an \<open>Error\<close> that is no \<open>CliError\<close> and leaves the tree as it was.
\<close>

definition dirname :: "string \<Rightarrow> string" where
  "dirname path =
     (if path = [] then ''.''
      else
        let hasRoot = (hd path = CHR ''/'');
            r = dropWhile (\<lambda>c. c \<noteq> CHR ''/'') (dropWhile (\<lambda>c. c = CHR ''/'') (rev (tl path)))
        in if r = [] then (if hasRoot then ''/'' else ''.'')
           else if hasRoot \<and> length r = 1 then ''//''
           else take (length r) path)"

definition existsSync :: "world \<Rightarrow> string \<Rightarrow> bool" where
  "existsSync w p = (fs w p \<noteq> None)"

definition ancestors :: "string \<Rightarrow> string list" where
  "ancestors p =
     (let segs = filter (\<lambda>s. s \<noteq> []) (splitOn (CHR ''/'') p);
          root = (if startsWith p ''/'' then ''/'' else [])
      in map (\<lambda>i. root @ joinWith ''/'' (take i segs))
           [(if root = [] then 1 else 0) ..< Suc (length segs)])"

fun mkdirAll :: "string list \<Rightarrow> (string \<Rightarrow> node option) \<Rightarrow> error + (string \<Rightarrow> node option)" where
  "mkdirAll [] t = Inr t"
| "mkdirAll (d # ds) t =
     (case t d of
        None \<Rightarrow> mkdirAll ds (t(d \<mapsto> Dir))
      | Some Dir \<Rightarrow> mkdirAll ds t
      | Some (File _) \<Rightarrow> Inl (Error (''ENOTDIR: not a directory, mkdir '' @ [quote] @ d @ [quote])))"

definition mkdirSync :: "string \<Rightarrow> world \<Rightarrow> error + world" where
  "mkdirSync dir w =
     (case mkdirAll (ancestors dir) (fs w) of
        Inl e \<Rightarrow> Inl e
      | Inr t \<Rightarrow> Inr (w\<lparr>fs := t\<rparr>))"

definition writeFileSync :: "string \<Rightarrow> string \<Rightarrow> world \<Rightarrow> error + world" where
  "writeFileSync p contents w =
     (if fs w p = Some Dir then
        Inl (Error (''EISDIR: illegal operation on a directory, open '' @ [quote] @ p @ [quote]))
      else case fs w (dirname p) of
        Some Dir \<Rightarrow> Inr (w\<lparr>fs := (fs w)(p \<mapsto> File contents)\<rparr>)
      | Some (File _) \<Rightarrow>
          Inl (Error (''ENOTDIR: not a directory, open '' @ [quote] @ p @ [quote]))
      | None \<Rightarrow>
          Inl (Error (''ENOENT: no such file or directory, open '' @ [quote] @ p @ [quote])))"

definition readFileSync :: "string \<Rightarrow> world \<Rightarrow> error + string" where
  "readFileSync p w =
     (case fs w p of
        Some (File contents) \<Rightarrow> Inr contents
      | Some Dir \<Rightarrow> Inl (Error ''EISDIR: illegal operation on a directory, read'')
      | None \<Rightarrow>
          Inl (Error (''ENOENT: no such file or directory, open '' @ [quote] @ p @ [quote])))"

definition ensureDirFor :: "string \<Rightarrow> world \<Rightarrow> error + world" where
  "ensureDirFor path w =
     (let dir = dirname path
      in if \<not> existsSync w dir then mkdirSync dir w else Inr w)"

section \<open>The retry executor\<close>

definition execFileSync :: "env \<Rightarrow> string list \<Rightarrow> world \<Rightarrow> (string + string) \<times> world" where
  "execFileSync ev args w =
     (git ev (calls w) args, w\<lparr>calls := Suc (calls w), trace := trace w @ [Exec args]\<rparr>)"

text \<open>The busy wait of \<open>runGitWithRetry\<close>, which ends once \<open>delay\<close> milliseconds have passed.\<close>

definition busyWait :: "int \<Rightarrow> world \<Rightarrow> world" where
  "busyWait delay w = emit (Wait delay) w"

definition retryMessage :: "string list \<Rightarrow> nat \<Rightarrow> int \<Rightarrow> int \<Rightarrow> string" where
  "retryMessage args attempt retries delay =
     ''git '' @ joinWith '' '' args @ '' failed (attempt '' @ numberToString (int attempt + 1) @
     '' of '' @ numberToString (retries + 1) @ ''). Retrying in '' @ numberToString delay @
     ''ms...''"

text \<open>
  The \<open>for\<close> loop of \<open>runGitWithRetry\<close> from the iteration \<open>attempt\<close> on, with the \<open>throw\<close>
  that follows it; \<open>lastError\<close> is \<open>None\<close> while it is \<open>undefined\<close>.
\<close>

function runGitAttempts ::
  "env \<Rightarrow> string list \<Rightarrow> int \<Rightarrow> int \<Rightarrow> logger \<Rightarrow> nat \<Rightarrow> string option \<Rightarrow> world \<Rightarrow>
   (error + string) \<times> world" where
  "runGitAttempts ev args retries backoffMs lg attempt lastError w =
     (if int attempt \<le> retries then
        (case execFileSync ev args w of
           (Inr out, w1) \<Rightarrow> (Inr out, w1)
         | (Inl e, w1) \<Rightarrow>
             if int attempt < retries then
               runGitAttempts ev args retries backoffMs lg (Suc attempt) (Some e)
                 (busyWait (backoffMs * 2 ^ attempt)
                    (logger_warn lg
                       (retryMessage args attempt retries (backoffMs * 2 ^ attempt)) w1))
             else (Inl (CliError ''GIT_COMMAND_FAILED'' e), w1))
      else
        (Inl (CliError ''GIT_COMMAND_FAILED''
           (case lastError of Some e \<Rightarrow> e | None \<Rightarrow> ''undefined'')), w))"
  by pat_completeness auto
termination
  by (relation "measure (\<lambda>(ev, args, retries, backoffMs, lg, attempt, lastError, w).
        nat (retries + 1 - int attempt))") auto

declare runGitAttempts.simps [simp del]

definition runGitWithRetry ::
  "env \<Rightarrow> string list \<Rightarrow> int \<Rightarrow> int \<Rightarrow> logger \<Rightarrow> world \<Rightarrow> (error + string) \<times> world" where
  "runGitWithRetry ev args retries backoffMs lg w =
     runGitAttempts ev args retries backoffMs lg 0 None w"

section \<open>The retrieval engine\<close>

text \<open>\<open>e instanceof Error ? e.message : String(e)\<close>, every thrown value being an \<open>Error\<close>.\<close>

fun messageOf :: "error \<Rightarrow> string" where
  "messageOf (CliError code message) = message"
| "messageOf (Error message) = message"

text \<open>\<open>e instanceof CliError ? e.code : 'UNKNOWN_ERROR'\<close>.\<close>

fun codeOf :: "error \<Rightarrow> string" where
  "codeOf (CliError code message) = code"
| "codeOf (Error message) = ''UNKNOWN_ERROR''"

text \<open>
  The five steps of \<open>fetchFileMinimal\<close>. The scratch directory lies outside the modelled
  tree, and the timeout acts inside a call of the external tool, whose outcome \<open>git\<close> gives.
\<close>

definition fetchFileMinimal ::
  "env \<Rightarrow> RemoteFile \<Rightarrow> int \<Rightarrow> int \<Rightarrow> logger \<Rightarrow> world \<Rightarrow> (error + string \<times> string) \<times> world" where
  "fetchFileMinimal ev rf retries backoffMs lg w0 =
     (let w = logger_verbose lg
                (''Shallow fetch of '' @ repo rf @ ''@'' @ ref rf @
                 '' without checkout (git fetch + git show)'') w0
      in case runGitWithRetry ev [''init'', ''-q''] retries backoffMs lg w of
        (Inl e, w1) \<Rightarrow> (Inl e, w1)
      | (Inr _, w1) \<Rightarrow>
      (case runGitWithRetry ev [''remote'', ''add'', ''origin'', repo rf] retries backoffMs lg w1 of
        (Inl e, w2) \<Rightarrow> (Inl e, w2)
      | (Inr _, w2) \<Rightarrow>
      (case runGitWithRetry ev [''fetch'', ''--depth'', ''1'', ''origin'', ref rf]
              retries backoffMs lg w2 of
        (Inl e, w3) \<Rightarrow> (Inl e, w3)
      | (Inr _, w3) \<Rightarrow>
      (case runGitWithRetry ev [''rev-parse'', ''FETCH_HEAD''] retries backoffMs lg w3 of
        (Inl e, w4) \<Rightarrow> (Inl e, w4)
      | (Inr out, w4) \<Rightarrow>
      (let sha = trim out
       in case runGitWithRetry ev [''show'', sha @ '':'' @ filePath rf] retries backoffMs lg w4 of
         (Inl e, w5) \<Rightarrow>
           (Inl (CliError ''SOURCE_FILE_NOT_FOUND''
              (''Source file '' @ [quote] @ filePath rf @ [quote] @ '' not found in '' @
               redactSecrets (repo rf @ ''@'' @ ref rf) @ '' ('' @ messageOf e @ '')'')), w5)
       | (Inr contents, w5) \<Rightarrow> (Inr (contents, sha), w5))))))"

section \<open>The destination writer\<close>

definition withinRoot :: "env \<Rightarrow> string \<Rightarrow> string \<Rightarrow> bool" where
  "withinRoot ev destRootDir dest =
     (let destFile = resolve (cwd ev) [destRootDir, dest];
          resolvedBase = resolve (cwd ev) [destRootDir];
          resolvedDest = resolve (cwd ev) [destFile]
      in \<not> (\<not> startsWith resolvedDest (resolvedBase @ [sep]) \<and> resolvedDest \<noteq> resolvedBase))"

definition writeDestFile ::
  "env \<Rightarrow> string \<Rightarrow> RemoteFile \<Rightarrow> string \<Rightarrow> bool \<Rightarrow> bool \<Rightarrow> int \<Rightarrow> logger \<Rightarrow> world \<Rightarrow>
   (error + string \<times> bool) \<times> world" where
  "writeDestFile ev contents rf destRootDir dryRun force maxBytes lg w =
     (let destFile = resolve (cwd ev) [destRootDir, destPath rf];
          resolvedBase = resolve (cwd ev) [destRootDir];
          resolvedDest = resolve (cwd ev) [destFile]
      in if \<not> startsWith resolvedDest (resolvedBase @ [sep]) \<and> resolvedDest \<noteq> resolvedBase then
           (Inl (CliError ''DEST_OUT_OF_BOUNDS''
              (''Destination escapes output directory: '' @ [quote] @ destPath rf @ [quote])), w)
         else if int (length contents) > maxBytes then
           (Inl (CliError ''FILE_TOO_LARGE''
              (''Source file '' @ [quote] @ filePath rf @ [quote] @ '' is too large ('' @
               numberToString (int (length contents)) @ '' bytes). Limit is '' @
               numberToString maxBytes @ '' bytes. Use --max-bytes to adjust.'')), w)
         else if existsSync w destFile \<and> \<not> force then
           (Inr (destFile, False),
            logger_warn lg
              (''Skipping existing '' @ [quote] @ destFile @ [quote] @
               ''. Use --force to overwrite.'') w)
         else if \<not> dryRun then
           (case ensureDirFor destFile w of
              Inl e \<Rightarrow> (Inl e, w)
            | Inr w1 \<Rightarrow>
                (case writeFileSync destFile contents w1 of
                   Inl e \<Rightarrow> (Inl e, w1)
                 | Inr w2 \<Rightarrow>
                     (Inr (destFile, True),
                      logger_log lg
                        (''Fetched '' @ filePath rf @ '' from '' @ repo rf @ ''@'' @ ref rf @
                         '' -> '' @ destFile) w2)))
         else
           (Inr (destFile, False),
            logger_log lg
              (''Fetched '' @ filePath rf @ '' from '' @ repo rf @ ''@'' @ ref rf @
               '' -> '' @ destFile) w))"

section \<open>The manifest store\<close>

definition readManifest :: "env \<Rightarrow> string \<Rightarrow> world \<Rightarrow> error + RemoteFile list" where
  "readManifest ev path w =
     (if \<not> existsSync w path then Inr []
      else case readFileSync path w of
        Inl e \<Rightarrow> Inl e
      | Inr text \<Rightarrow> Inr (manifestOfText ev text))"

definition updateManifest :: "env \<Rightarrow> string \<Rightarrow> RemoteFile \<Rightarrow> world \<Rightarrow> error + world" where
  "updateManifest ev path rf w =
     (case readManifest ev path w of
        Inl e \<Rightarrow> Inl e
      | Inr existing \<Rightarrow>
          (case ensureDirFor path w of
             Inl e \<Rightarrow> Inl e
           | Inr w1 \<Rightarrow> writeFileSync path (textOfManifest ev (existing @ [rf])) w1))"

section \<open>The run orchestrator\<close>

text \<open>
  The values \<open>main\<close> reads from the command line and the environment before its loop. The
  model of \<open>main\<close> starts at the loop; reading the flags, the help text and the exit for an
  empty list of references come before it.
\<close>

record options =
  opt_dryRun :: bool
  opt_force :: bool
  opt_jsonOutput :: bool
  opt_quietFlag :: bool
  opt_verboseFlag :: bool
  opt_eject :: bool
  opt_destRootDir :: string
  opt_manifestPath :: string
  opt_maxBytes :: int
  opt_retries :: int
  opt_backoffMs :: int

definition loggerOf :: "options \<Rightarrow> logger" where
  "loggerOf opts =
     createLogger (if opt_jsonOutput opts then True else opt_quietFlag opts) (opt_verboseFlag opts)"

text \<open>The body of the \<open>try\<close> block for one reference.\<close>

definition main_try ::
  "env \<Rightarrow> options \<Rightarrow> string \<Rightarrow> world \<Rightarrow> (error + RemoteFile \<times> string) \<times> world" where
  "main_try ev opts arg w =
     (case parseRef arg of
        Inl e \<Rightarrow> (Inl e, w)
      | Inr rf0 \<Rightarrow>
          (case fetchFileMinimal ev rf0 (opt_retries opts) (opt_backoffMs opts) (loggerOf opts) w of
             (Inl e, w1) \<Rightarrow> (Inl e, w1)
           | (Inr (contents, sha), w1) \<Rightarrow>
               (let rf = rf0\<lparr>commitSha := Some sha\<rparr>
                in case writeDestFile ev contents rf (opt_destRootDir opts) (opt_dryRun opts)
                          (opt_force opts) (opt_maxBytes opts) (loggerOf opts) w1 of
                  (Inl e, w2) \<Rightarrow> (Inl e, w2)
                | (Inr (file, wrote), w2) \<Rightarrow>
                    if \<not> opt_dryRun opts \<and> wrote \<and> \<not> opt_eject opts then
                      (case updateManifest ev (opt_manifestPath opts) rf w2 of
                         Inl e \<Rightarrow> (Inl e, w2)
                       | Inr w3 \<Rightarrow> (Inr (rf, file), w3))
                    else (Inr (rf, file), w2))))"

text \<open>One iteration of the loop: the \<open>try\<close> block and its \<open>catch\<close>.\<close>

definition main_item :: "env \<Rightarrow> options \<Rightarrow> string \<Rightarrow> world \<Rightarrow> FetchResult \<times> world" where
  "main_item ev opts arg w =
     (case main_try ev opts arg w of
        (Inr (rf, file), w1) \<Rightarrow>
          (\<lparr>input = arg, success = True, destFile = Some file, errorCode = None,
            errorMessage = None, remote = Some rf\<rparr>, w1)
      | (Inl e, w1) \<Rightarrow>
          (\<lparr>input = arg, success = False, destFile = None, errorCode = Some (codeOf e),
            errorMessage = Some (messageOf e), remote = None\<rparr>,
           logger_error (loggerOf opts) (''Error: '' @ codeOf e @ '': '' @ messageOf e) w1))"

text \<open>The loop, with the results so far and \<open>process.exitCode\<close> (0 while it is not set).\<close>

fun main_loop ::
  "env \<Rightarrow> options \<Rightarrow> string list \<Rightarrow> FetchResult list \<Rightarrow> int \<Rightarrow> world \<Rightarrow>
   FetchResult list \<times> int \<times> world" where
  "main_loop ev opts [] results exitCode w = (results, exitCode, w)"
| "main_loop ev opts (arg # rest) results exitCode w =
     (case main_item ev opts arg w of
        (r, w1) \<Rightarrow>
          main_loop ev opts rest (results @ [r]) (if success r then exitCode else 1) w1)"

definition main :: "env \<Rightarrow> options \<Rightarrow> string list \<Rightarrow> world \<Rightarrow> FetchResult list \<times> int \<times> world" where
  "main ev opts entries w =
     (case main_loop ev opts entries [] 0 w of
        (results, exitCode, w1) \<Rightarrow>
          (results, exitCode,
           if opt_jsonOutput opts then emit (StdoutJson results) w1 else w1))"

section \<open>Upward traversal, as the claims speak of it\<close>

text \<open>
  A path traverses upward when, read segment by segment from its start, some \<open>..\<close> climbs
  above the directory the path starts in: empty segments and \<open>.\<close> stay, a named segment
  goes one level down, \<open>..\<close> goes one level up. This is the case for \<open>../x\<close>,
  \<open>a/../../b\<close> and \<open>..\<close>, and not for \<open>a/../b\<close>.
\<close>

fun climbsAbove :: "nat \<Rightarrow> string list \<Rightarrow> bool" where
  "climbsAbove depth [] = False"
| "climbsAbove depth (seg # segs) =
     (if seg = [] \<or> seg = ''.'' then climbsAbove depth segs
      else if seg = ''..'' then (case depth of 0 \<Rightarrow> True | Suc d \<Rightarrow> climbsAbove d segs)
      else climbsAbove (Suc depth) segs)"

definition escapesUpward :: "string \<Rightarrow> bool" where
  "escapesUpward path =
     climbsAbove 0 (splitOn (CHR ''/'') (map (\<lambda>c. if c = backslash then CHR ''/'' else c) path))"

section \<open>What a failed attempt leaves behind\<close>

text \<open>
  The events of the attempt \<open>i\<close> (counted from 0) of a call of \<open>runGitWithRetry\<close> when it
  fails and another attempt follows: the call of the external tool, the warning, which the
  logger prints unless it is quiet, and the wait of \<open>backoffMs * 2^i\<close> milliseconds.
\<close>

definition failedAttempt :: "string list \<Rightarrow> int \<Rightarrow> int \<Rightarrow> logger \<Rightarrow> nat \<Rightarrow> event list" where
  "failedAttempt args retries backoffMs lg i =
     Exec args #
     (if quiet lg then []
      else [Stderr (redactSecrets (retryMessage args i retries (backoffMs * 2 ^ i)))]) @
     [Wait (backoffMs * 2 ^ i)]"

section \<open>Concrete inputs\<close>

text \<open>
  An environment around a given behaviour of the external tool, a tool that fails with a
  timeout on its first \<open>k\<close> calls and succeeds from then on, and a world in which only the
  output directory \<open>/out\<close> exists.
\<close>

definition exampleEnv :: "(nat \<Rightarrow> string list \<Rightarrow> string + string) \<Rightarrow> env" where
  "exampleEnv g = \<lparr>git = g, cwd = ''/work'', manifestOfText = (\<lambda>t. []), textOfManifest = (\<lambda>l. ''[]'')\<rparr>"

definition flaky :: "nat \<Rightarrow> nat \<Rightarrow> string list \<Rightarrow> string + string" where
  "flaky k n args = (if n < k then Inl ''ETIMEDOUT'' else Inr ''ok'')"

definition exampleWorld :: world where
  "exampleWorld = \<lparr>fs = [''/'' \<mapsto> Dir, ''/out'' \<mapsto> Dir], calls = 0, trace = []\<rparr>"

text \<open>
  A parsed reference to \<open>a.txt\<close>, and a world in which \<open>/out/a.txt\<close> exists already.
\<close>

definition exampleRemote :: RemoteFile where
  "exampleRemote = \<lparr>repo = ''https://host/repo.git'', ref = ''main'', filePath = ''a.txt'',
     destPath = ''a.txt'', commitSha = Some ''abc123''\<rparr>"

definition existingWorld :: world where
  "existingWorld = \<lparr>fs = [''/'' \<mapsto> Dir, ''/out'' \<mapsto> Dir, ''/out/a.txt'' \<mapsto> File ''old''],
     calls = 0, trace = []\<rparr>"

section \<open>Notions used to state the claims about a run\<close>


text \<open>
  A result of a simulated run agrees with the result of the real run for the same
  reference when both succeed or both fail, or when the simulation succeeds and the real
  run fails with an error that is no \<open>CliError\<close>, reported as \<open>UNKNOWN_ERROR\<close>.
\<close>

definition simulationAgrees :: "FetchResult \<Rightarrow> FetchResult \<Rightarrow> bool" where
  "simulationAgrees d r =
     (success d = success r \<or> (success d \<and> errorCode r = Some ''UNKNOWN_ERROR''))"

text \<open>
  A step is framed from the call count \<open>c\<close> when, started in any world with that count, it
  returns the same result, runs the external tool the same number of times, adds the same
  events and leaves the file tree alone.
\<close>

definition framed :: "nat \<Rightarrow> (world \<Rightarrow> 'a \<times> world) \<Rightarrow> bool" where
  "framed c f =
     (\<exists>res n tr. \<forall>w. calls w = c \<longrightarrow> f w = (res, w\<lparr>calls := calls w + n, trace := trace w @ tr\<rparr>))"

text \<open>
  An external tool that answers every call, with the commit \<open>abc123\<close> and the content
  \<open>hello\<close>; the options of a run in JSON mode into \<open>/out\<close>; a batch whose second reference
  traverses upward; and a batch whose second reference needs the first one's file as a
  directory.
\<close>

definition gitOk :: "nat \<Rightarrow> string list \<Rightarrow> string + string" where
  "gitOk n args =
     (if hd args = ''rev-parse'' then Inr (''abc123'' @ [CHR 0x0A])
      else if hd args = ''show'' then Inr ''hello''
      else Inr [])"

definition exampleOptions :: options where
  "exampleOptions =
     \<lparr>opt_dryRun = False, opt_force = False, opt_jsonOutput = True, opt_quietFlag = False,
      opt_verboseFlag = False, opt_eject = False, opt_destRootDir = ''/out'',
      opt_manifestPath = ''/out/.git-remote-files.json'', opt_maxBytes = 10000000,
      opt_retries = 2, opt_backoffMs = 500\<rparr>"

definition exampleBatch :: "string list" where
  "exampleBatch =
     [''https://host/repo.git@main:a.txt'', ''https://host/repo.git@main:../b.txt'',
      ''https://host/repo.git@main:c.txt'']"

definition nestedBatch :: "string list" where
  "nestedBatch = [''https://host/one.git@main:a'', ''https://host/two.git@main:a/b'']"

section \<open>Facts about the string primitives\<close>

lemma lastIndexOf_None_iff: "lastIndexOf s c = None \<longleftrightarrow> c \<notin> set s"
  by (induction s) (auto split: option.splits)

lemma lastIndexOf_append: "c \<notin> set b \<Longrightarrow> lastIndexOf (a @ c # b) c = Some (length a)"
proof (induction a)
  case Nil
  then have "lastIndexOf b c = None" by (simp add: lastIndexOf_None_iff)
  then show ?case by simp
next
  case (Cons x a)
  then show ?case by simp
qed

lemma splitOn_nonempty: "splitOn c s \<noteq> []"
  by (induction s) (auto split: list.splits)

lemma joinWith_Cons: "ys \<noteq> [] \<Longrightarrow> joinWith sp (x # ys) = x @ sp @ joinWith sp ys"
  by (cases ys) auto

lemma joinWith_splitOn: "joinWith [c] (splitOn c s) = s"
proof (induction s)
  case Nil
  show ?case by simp
next
  case (Cons x s)
  obtain y ys where sp: "splitOn c s = y # ys"
    using splitOn_nonempty [of c s] by (cases "splitOn c s") auto
  show ?case
  proof (cases "x = c")
    case True
    with Cons show ?thesis by (simp add: joinWith_Cons splitOn_nonempty)
  next
    case False
    with Cons sp show ?thesis by (cases ys) auto
  qed
qed

lemmas path_eval =
  normalizeAndValidateRelativePath_def normalize_posix_def normalizeString_def normStep_def
  startsWith_def str_includes_def sublist_Cons_right backslash_def nul_def quote_def

section \<open>The reference parser splits at the last separators\<close>

lemma parseRef_at_last_colon:
  assumes "CHR '':'' \<notin> set p"
  shows "parseRef (a @ CHR '':'' # p) =
     (case normalizeAndValidateRelativePath p of
        Inl e \<Rightarrow> Inl e
      | Inr safe \<Rightarrow>
          Inr \<lparr>repo = (case lastIndexOf a (CHR ''@'') of None \<Rightarrow> a | Some i \<Rightarrow> take i a),
               ref = (case lastIndexOf a (CHR ''@'') of None \<Rightarrow> ''main''
                      | Some i \<Rightarrow> drop (Suc i) a),
               filePath = safe, destPath = safe, commitSha = None\<rparr>)"
proof -
  have idx: "lastIndexOf (a @ CHR '':'' # p) (CHR '':'') = Some (length a)"
    using assms by (rule lastIndexOf_append)
  show ?thesis
    unfolding parseRef_def idx
    by (cases "normalizeAndValidateRelativePath p"; cases "lastIndexOf a (CHR ''@'')")
       (simp_all add: Let_def sep_def joinWith_splitOn)
qed

lemma parseRef_with_ref:
  assumes "CHR '':'' \<notin> set p" and "CHR ''@'' \<notin> set f"
  shows "parseRef (r @ ''@'' @ f @ '':'' @ p) =
     (case normalizeAndValidateRelativePath p of
        Inl e \<Rightarrow> Inl e
      | Inr safe \<Rightarrow>
          Inr \<lparr>repo = r, ref = f, filePath = safe, destPath = safe, commitSha = None\<rparr>)"
proof -
  have at: "lastIndexOf (r @ CHR ''@'' # f) (CHR ''@'') = Some (length r)"
    using assms(2) by (simp add: lastIndexOf_append)
  have "parseRef ((r @ CHR ''@'' # f) @ CHR '':'' # p) =
     (case normalizeAndValidateRelativePath p of
        Inl e \<Rightarrow> Inl e
      | Inr safe \<Rightarrow>
          Inr \<lparr>repo = r, ref = f, filePath = safe, destPath = safe, commitSha = None\<rparr>)"
    unfolding parseRef_at_last_colon [OF assms(1)] at
    by (cases "normalizeAndValidateRelativePath p") simp_all
  then show ?thesis by simp
qed

lemma parseRef_default_ref:
  assumes "CHR '':'' \<notin> set p" and "CHR ''@'' \<notin> set r"
  shows "parseRef (r @ '':'' @ p) =
     (case normalizeAndValidateRelativePath p of
        Inl e \<Rightarrow> Inl e
      | Inr safe \<Rightarrow>
          Inr \<lparr>repo = r, ref = ''main'', filePath = safe, destPath = safe, commitSha = None\<rparr>)"
proof -
  have at: "lastIndexOf r (CHR ''@'') = None"
    using assms(2) by (simp add: lastIndexOf_None_iff)
  have "parseRef (r @ CHR '':'' # p) =
     (case normalizeAndValidateRelativePath p of
        Inl e \<Rightarrow> Inl e
      | Inr safe \<Rightarrow>
          Inr \<lparr>repo = r, ref = ''main'', filePath = safe, destPath = safe, commitSha = None\<rparr>)"
    unfolding parseRef_at_last_colon [OF assms(1)] at
    by (cases "normalizeAndValidateRelativePath p") simp_all
  then show ?thesis by simp
qed

lemma parseRef_no_colon:
  assumes "CHR '':'' \<notin> set s"
  shows "parseRef s = Inl (CliError ''INVALID_REF_FORMAT''
     (''Invalid ref '' @ [quote] @ s @ [quote] @ ''. Expected '' @ [quote] @
      ''<repo.git>@<ref>:<path>'' @ [quote]))"
proof -
  from assms have "lastIndexOf s (CHR '':'') = None" by (simp add: lastIndexOf_None_iff)
  then show ?thesis by (simp add: parseRef_def)
qed

lemma validated_path_is_normalized:
  "case normalizeAndValidateRelativePath p of
     Inl e \<Rightarrow> codeOf e = ''INVALID_PATH''
   | Inr safe \<Rightarrow> safe = normalize_posix (map (\<lambda>c. if c = backslash then CHR ''/'' else c) p)"
  by (simp add: normalizeAndValidateRelativePath_def Let_def)

text \<open>
  C1. An input without \<open>:\<close> fails with \<open>INVALID_REF_FORMAT\<close>. An input with \<open>:\<close> is cut at
  its last \<open>:\<close>: what follows is the path, what precedes is cut at its last \<open>@\<close> into repo
  and ref, the ref being \<open>main\<close> when there is no \<open>@\<close>. The path goes through the
  validation, which either fails with \<open>INVALID_PATH\<close> or yields the POSIX normalization of
  the path (backslashes read as slashes), stored as \<open>filePath\<close> and, on a POSIX platform,
  as \<open>destPath\<close>.
\<close>

theorem parseRef_last_separators:
  "(CHR '':'' \<notin> set s \<longrightarrow>
      parseRef s = Inl (CliError ''INVALID_REF_FORMAT''
        (''Invalid ref '' @ [quote] @ s @ [quote] @ ''. Expected '' @ [quote] @
         ''<repo.git>@<ref>:<path>'' @ [quote])))
   \<and> (CHR '':'' \<notin> set p \<and> CHR ''@'' \<notin> set f \<longrightarrow>
      parseRef (r @ ''@'' @ f @ '':'' @ p) =
        (case normalizeAndValidateRelativePath p of
           Inl e \<Rightarrow> Inl e
         | Inr safe \<Rightarrow>
             Inr \<lparr>repo = r, ref = f, filePath = safe, destPath = safe, commitSha = None\<rparr>))
   \<and> (CHR '':'' \<notin> set p \<and> CHR ''@'' \<notin> set r \<longrightarrow>
      parseRef (r @ '':'' @ p) =
        (case normalizeAndValidateRelativePath p of
           Inl e \<Rightarrow> Inl e
         | Inr safe \<Rightarrow>
             Inr \<lparr>repo = r, ref = ''main'', filePath = safe, destPath = safe,
                  commitSha = None\<rparr>))
   \<and> (case normalizeAndValidateRelativePath p of
         Inl e \<Rightarrow> codeOf e = ''INVALID_PATH''
       | Inr safe \<Rightarrow>
           safe = normalize_posix (map (\<lambda>c. if c = backslash then CHR ''/'' else c) p))"
proof (intro conjI impI)
  assume "CHR '':'' \<notin> set s"
  then show "parseRef s = Inl (CliError ''INVALID_REF_FORMAT''
        (''Invalid ref '' @ [quote] @ s @ [quote] @ ''. Expected '' @ [quote] @
         ''<repo.git>@<ref>:<path>'' @ [quote]))"
    by (rule parseRef_no_colon)
next
  assume "CHR '':'' \<notin> set p \<and> CHR ''@'' \<notin> set f"
  then have "CHR '':'' \<notin> set p" and "CHR ''@'' \<notin> set f" by blast+
  then show "parseRef (r @ ''@'' @ f @ '':'' @ p) =
        (case normalizeAndValidateRelativePath p of
           Inl e \<Rightarrow> Inl e
         | Inr safe \<Rightarrow>
             Inr \<lparr>repo = r, ref = f, filePath = safe, destPath = safe, commitSha = None\<rparr>)"
    by (rule parseRef_with_ref)
next
  assume "CHR '':'' \<notin> set p \<and> CHR ''@'' \<notin> set r"
  then have "CHR '':'' \<notin> set p" and "CHR ''@'' \<notin> set r" by blast+
  then show "parseRef (r @ '':'' @ p) =
        (case normalizeAndValidateRelativePath p of
           Inl e \<Rightarrow> Inl e
         | Inr safe \<Rightarrow>
             Inr \<lparr>repo = r, ref = ''main'', filePath = safe, destPath = safe,
                  commitSha = None\<rparr>)"
    by (rule parseRef_default_ref)
next
  show "case normalizeAndValidateRelativePath p of
         Inl e \<Rightarrow> codeOf e = ''INVALID_PATH''
       | Inr safe \<Rightarrow>
           safe = normalize_posix (map (\<lambda>c. if c = backslash then CHR ''/'' else c) p)"
    by (rule validated_path_is_normalized)
qed

lemma validate_logger_ts:
  "normalizeAndValidateRelativePath ''src//utils/./logger.ts'' = Inr ''src/utils/logger.ts''"
  by (simp add: path_eval)

lemma validate_LICENSE: "normalizeAndValidateRelativePath ''LICENSE'' = Inr ''LICENSE''"
  by (simp add: path_eval)

theorem parseRef_last_separators_witness:
  "parseRef ''no separator'' =
     Inl (CliError ''INVALID_REF_FORMAT''
       (''Invalid ref '' @ [quote] @ ''no separator'' @ [quote] @ ''. Expected '' @ [quote] @
        ''<repo.git>@<ref>:<path>'' @ [quote]))
   \<and> parseRef ''https://github.com/user/repo.git@v1.2.3:src//utils/./logger.ts'' =
       Inr \<lparr>repo = ''https://github.com/user/repo.git'', ref = ''v1.2.3'',
            filePath = ''src/utils/logger.ts'', destPath = ''src/utils/logger.ts'',
            commitSha = None\<rparr>
   \<and> parseRef ''https://github.com/user/repo.git:LICENSE'' =
       Inr \<lparr>repo = ''https://github.com/user/repo.git'', ref = ''main'',
            filePath = ''LICENSE'', destPath = ''LICENSE'', commitSha = None\<rparr>"
proof -
  note a = parseRef_last_separators [where s = "''no separator''"
      and p = "''src//utils/./logger.ts''" and f = "''v1.2.3''"
      and r = "''https://github.com/user/repo.git''"]
  note b = parseRef_last_separators [where s = "''no separator''" and p = "''LICENSE''"
      and f = "''main''" and r = "''https://github.com/user/repo.git''"]
  have 1: "parseRef ''no separator'' =
     Inl (CliError ''INVALID_REF_FORMAT''
       (''Invalid ref '' @ [quote] @ ''no separator'' @ [quote] @ ''. Expected '' @ [quote] @
        ''<repo.git>@<ref>:<path>'' @ [quote]))"
    using a [THEN conjunct1] by simp
  have 2: "parseRef ''https://github.com/user/repo.git@v1.2.3:src//utils/./logger.ts'' =
       Inr \<lparr>repo = ''https://github.com/user/repo.git'', ref = ''v1.2.3'',
            filePath = ''src/utils/logger.ts'', destPath = ''src/utils/logger.ts'',
            commitSha = None\<rparr>"
    using a [THEN conjunct2, THEN conjunct1] by (simp add: validate_logger_ts)
  have 3: "parseRef ''https://github.com/user/repo.git:LICENSE'' =
       Inr \<lparr>repo = ''https://github.com/user/repo.git'', ref = ''main'',
            filePath = ''LICENSE'', destPath = ''LICENSE'', commitSha = None\<rparr>"
    using b [THEN conjunct2, THEN conjunct2, THEN conjunct1] by (simp add: validate_LICENSE)
  from 1 2 3 show ?thesis by blast
qed

section \<open>Paths that traverse upward are rejected\<close>

lemma normStep_keeps_bottom:
  assumes "st \<noteq> []" and "last st = ''..''"
  shows "normStep True st seg \<noteq> [] \<and> last (normStep True st seg) = ''..''"
proof (cases "seg = ''..'' \<and> hd st \<noteq> ''..''")
  case True
  with assms obtain x y ys where "st = x # y # ys"
    by (cases st; cases "tl st") auto
  with assms True show ?thesis by (simp add: normStep_def)
next
  case False
  with assms show ?thesis by (auto simp: normStep_def)
qed

lemma foldl_keeps_bottom:
  "st \<noteq> [] \<Longrightarrow> last st = ''..'' \<Longrightarrow>
   foldl (normStep True) st segs \<noteq> [] \<and> last (foldl (normStep True) st segs) = ''..''"
proof (induction segs arbitrary: st)
  case Nil
  then show ?case by simp
next
  case (Cons seg segs)
  from normStep_keeps_bottom [OF Cons.prems]
  have "normStep True st seg \<noteq> []" and "last (normStep True st seg) = ''..''" by blast+
  from Cons.IH [OF this] show ?case by simp
qed

lemma normStep_skip: "seg = [] \<or> seg = ''.'' \<Longrightarrow> normStep ab st seg = st"
  by (auto simp: normStep_def)

lemma normStep_push:
  "seg \<noteq> [] \<Longrightarrow> seg \<noteq> ''.'' \<Longrightarrow> seg \<noteq> ''..'' \<Longrightarrow> normStep ab st seg = seg # st"
  by (simp add: normStep_def)

lemma normStep_pop: "x \<noteq> ''..'' \<Longrightarrow> normStep ab (x # st) ''..'' = st"
  by (simp add: normStep_def)

lemma normStep_up_empty: "normStep True [] ''..'' = [''..'']"
  by (simp add: normStep_def)

lemma climbing_leaves_dotdot:
  "''..'' \<notin> set st \<Longrightarrow> climbsAbove (length st) segs \<Longrightarrow>
   foldl (normStep True) st segs \<noteq> [] \<and> last (foldl (normStep True) st segs) = ''..''"
proof (induction segs arbitrary: st)
  case Nil
  then show ?case by simp
next
  case (Cons seg segs)
  show ?case
  proof (cases "seg = [] \<or> seg = ''.''")
    case True
    with Cons.prems have "climbsAbove (length st) segs" by auto
    from Cons.IH [OF Cons.prems(1) this] normStep_skip [OF True, of True st]
    show ?thesis by simp
  next
    case skip: False
    show ?thesis
    proof (cases "seg = ''..''")
      case up: True
      show ?thesis
      proof (cases st)
        case Nil
        have "foldl (normStep True) [''..''] segs \<noteq> [] \<and>
              last (foldl (normStep True) [''..''] segs) = ''..''"
          by (rule foldl_keeps_bottom) simp_all
        with Nil up normStep_up_empty show ?thesis by simp
      next
        case (Cons x xs)
        with Cons.prems up have c: "climbsAbove (length xs) segs" and n: "''..'' \<notin> set xs"
          and x: "x \<noteq> ''..''" by auto
        from Cons.IH [OF n c] Cons up normStep_pop [OF x, of True xs] show ?thesis by simp
      qed
    next
      case False
      with skip Cons.prems have c: "climbsAbove (length (seg # st)) segs"
        and n: "''..'' \<notin> set (seg # st)" by auto
      from skip False have "normStep True st seg = seg # st" by (simp add: normStep_push)
      with Cons.IH [OF n c] show ?thesis by simp
    qed
  qed
qed

lemma joinWith_last_first:
  "xs \<noteq> [] \<Longrightarrow> prefix (hd xs) (joinWith sp xs)"
  by (cases xs; cases "tl xs") auto

lemma escaping_relative_starts_dotdot:
  assumes "climbsAbove 0 (splitOn (CHR ''/'') path)"
  shows "prefix ''..'' (normalizeString path True)"
proof -
  let ?st = "foldl (normStep True) [] (splitOn (CHR ''/'') path)"
  have "?st \<noteq> [] \<and> last ?st = ''..''"
    using climbing_leaves_dotdot [of "[]" "splitOn (CHR ''/'') path"] assms by simp
  then have "rev ?st \<noteq> []" and "hd (rev ?st) = ''..''" by (simp_all add: hd_rev)
  with joinWith_last_first [of "rev ?st" "''/''"] show ?thesis
    by (simp add: normalizeString_def)
qed

lemma escaping_path_rejected:
  assumes "escapesUpward p"
  shows "\<exists>m. normalizeAndValidateRelativePath p = Inl (CliError ''INVALID_PATH'' m)"
proof -
  let ?fwd = "map (\<lambda>c. if c = backslash then CHR ''/'' else c) p"
  let ?n = "normalize_posix ?fwd"
  from assms have climbs: "climbsAbove 0 (splitOn (CHR ''/'') ?fwd)"
    by (simp add: escapesUpward_def)
  then have ne: "?fwd \<noteq> []" by (cases "?fwd") auto
  have "prefix ''..'' ?n \<or> prefix ''/'' ?n"
  proof (cases "hd ?fwd = CHR ''/''")
    case True
    with ne have "prefix ''/'' ?n" by (simp add: normalize_posix_def Let_def)
    then show ?thesis ..
  next
    case False
    from escaping_relative_starts_dotdot [OF climbs]
    obtain rest where r: "normalizeString ?fwd True = ''..'' @ rest" by (auto simp: prefix_def)
    with ne False have "prefix ''..'' ?n" by (simp add: normalize_posix_def Let_def)
    then show ?thesis ..
  qed
  then show ?thesis
    by (auto simp: normalizeAndValidateRelativePath_def Let_def startsWith_def)
qed

text \<open>
  C2, as amended. When the path part of an input traverses upward (some \<open>..\<close> climbs above
  the directory the path starts in, as in \<open>../x\<close>, \<open>a/../../b\<close> and \<open>..\<close>), parsing
  fails with \<open>INVALID_PATH\<close>.
\<close>

theorem parseRef_rejects_escaping_path:
  "escapesUpward p \<and> CHR '':'' \<notin> set p \<longrightarrow>
     (\<exists>m. parseRef (a @ '':'' @ p) = Inl (CliError ''INVALID_PATH'' m))"
proof
  assume h: "escapesUpward p \<and> CHR '':'' \<notin> set p"
  then obtain m where m: "normalizeAndValidateRelativePath p = Inl (CliError ''INVALID_PATH'' m)"
    using escaping_path_rejected by blast
  from h have "CHR '':'' \<notin> set p" ..
  from parseRef_at_last_colon [OF this, of a] m
  have "parseRef (a @ '':'' @ p) = Inl (CliError ''INVALID_PATH'' m)" by simp
  then show "\<exists>m. parseRef (a @ '':'' @ p) = Inl (CliError ''INVALID_PATH'' m)" ..
qed

lemma escapes_dotdot_x: "escapesUpward ''../x''" by (simp add: escapesUpward_def backslash_def)
lemma escapes_a_dotdot_dotdot_b: "escapesUpward ''a/../../b''" by (simp add: escapesUpward_def backslash_def)
lemma escapes_dotdot: "escapesUpward ''..''" by (simp add: escapesUpward_def backslash_def)
lemma stays_a_dotdot_b: "\<not> escapesUpward ''a/../b''" by (simp add: escapesUpward_def backslash_def)

theorem parseRef_rejects_escaping_path_witness:
  "(\<exists>m. parseRef ''repo.git@main:../x'' = Inl (CliError ''INVALID_PATH'' m))
   \<and> (\<exists>m. parseRef ''repo.git@main:a/../../b'' = Inl (CliError ''INVALID_PATH'' m))
   \<and> (\<exists>m. parseRef ''repo.git@main:..'' = Inl (CliError ''INVALID_PATH'' m))"
proof -
  have "\<exists>m. parseRef (''repo.git@main'' @ '':'' @ ''../x'') = Inl (CliError ''INVALID_PATH'' m)"
    using parseRef_rejects_escaping_path [of "''../x''" "''repo.git@main''"] escapes_dotdot_x by simp
  moreover have "\<exists>m. parseRef (''repo.git@main'' @ '':'' @ ''a/../../b'') = Inl (CliError ''INVALID_PATH'' m)"
    using parseRef_rejects_escaping_path [of "''a/../../b''" "''repo.git@main''"] escapes_a_dotdot_dotdot_b by simp
  moreover have "\<exists>m. parseRef (''repo.git@main'' @ '':'' @ ''..'') = Inl (CliError ''INVALID_PATH'' m)"
    using parseRef_rejects_escaping_path [of "''..''" "''repo.git@main''"] escapes_dotdot by simp
  ultimately show ?thesis by simp
qed

lemma validate_resolved: "normalizeAndValidateRelativePath ''a/../b'' = Inr ''b''"
  by (simp add: path_eval)

text \<open>
  C2, as stated, fails: the path \<open>a/../b\<close> has the segment \<open>..\<close>, and parsing succeeds
  with the path resolved to \<open>b\<close>.
\<close>

theorem parseRef_resolves_inner_dotdot:
  "''..'' \<in> set (splitOn (CHR ''/'') ''a/../b'')
   \<and> parseRef ''repo.git@main:a/../b'' =
       Inr \<lparr>repo = ''repo.git'', ref = ''main'', filePath = ''b'', destPath = ''b'',
            commitSha = None\<rparr>"
proof -
  have "parseRef (''repo.git'' @ ''@'' @ ''main'' @ '':'' @ ''a/../b'') =
       Inr \<lparr>repo = ''repo.git'', ref = ''main'', filePath = ''b'', destPath = ''b'',
            commitSha = None\<rparr>"
    using parseRef_with_ref [of "''a/../b''" "''main''" "''repo.git''"]
    by (simp add: validate_resolved)
  then show ?thesis by simp
qed

section \<open>Retries and backoff\<close>

lemma failed_attempt_world:
  "busyWait d (logger_warn lg (retryMessage args i retries d)
     (w\<lparr>calls := Suc (calls w), trace := trace w @ [Exec args]\<rparr>)) =
   w\<lparr>calls := Suc (calls w),
     trace := trace w @ Exec args #
       (if quiet lg then [] else [Stderr (redactSecrets (retryMessage args i retries d))]) @
       [Wait d]\<rparr>"
  by (simp add: busyWait_def logger_warn_def emit_def)

lemma upt_shift: "map f [0..<Suc k] = f 0 # map (\<lambda>i. f (Suc i)) [0..<k]"
  by (simp add: upt_conv_Cons map_Suc_upt [symmetric] del: upt_Suc)

lemma attempts_until_success:
  assumes "\<forall>i<k. git ev (calls w + i) args = Inl (e i)"
    and "git ev (calls w + k) args = Inr out"
    and "int (a + k) \<le> retries"
  shows "runGitAttempts ev args retries backoffMs lg a le w =
     (Inr out,
      w\<lparr>calls := calls w + k + 1,
        trace := trace w @
          concat (map (\<lambda>i. failedAttempt args retries backoffMs lg (a + i)) [0..<k]) @
          [Exec args]\<rparr>)"
  using assms
proof (induction k arbitrary: a le w e)
  case 0
  then show ?case
    by (subst runGitAttempts.simps) (simp add: execFileSync_def)
next
  case (Suc k)
  let ?w3 = "busyWait (backoffMs * 2 ^ a)
      (logger_warn lg (retryMessage args a retries (backoffMs * 2 ^ a))
        (w\<lparr>calls := Suc (calls w), trace := trace w @ [Exec args]\<rparr>))"
  have w3: "?w3 = w\<lparr>calls := Suc (calls w),
      trace := trace w @ failedAttempt args retries backoffMs lg a\<rparr>"
    by (simp add: failed_attempt_world failedAttempt_def)
  from Suc.prems have first: "git ev (calls w) args = Inl (e 0)" by auto
  from Suc.prems have lt: "int a < retries" by simp
  have step: "runGitAttempts ev args retries backoffMs lg a le w =
      runGitAttempts ev args retries backoffMs lg (Suc a) (Some (e 0)) ?w3"
    using first lt by (subst runGitAttempts.simps) (simp add: execFileSync_def)
  have "\<forall>i<k. git ev (calls ?w3 + i) args = Inl ((e \<circ> Suc) i)"
  proof (intro allI impI)
    fix i assume "i < k"
    with Suc.prems(1) have "git ev (calls w + Suc i) args = Inl (e (Suc i))" by auto
    then show "git ev (calls ?w3 + i) args = Inl ((e \<circ> Suc) i)" by (simp add: w3)
  qed
  moreover have "git ev (calls ?w3 + k) args = Inr out"
    using Suc.prems(2) by (simp add: w3)
  moreover have "int (Suc a + k) \<le> retries"
    using Suc.prems(3) by simp
  ultimately have "runGitAttempts ev args retries backoffMs lg (Suc a) (Some (e 0)) ?w3 =
     (Inr out,
      ?w3\<lparr>calls := calls ?w3 + k + 1,
        trace := trace ?w3 @
          concat (map (\<lambda>i. failedAttempt args retries backoffMs lg (Suc a + i)) [0..<k]) @
          [Exec args]\<rparr>)"
    by (rule Suc.IH)
  then show ?case
    unfolding step w3 by (simp add: upt_shift del: upt_Suc)
qed

lemma attempts_all_fail:
  assumes "\<forall>i\<le>k. git ev (calls w + i) args = Inl (e i)"
    and "int (a + k) = retries"
  shows "runGitAttempts ev args retries backoffMs lg a le w =
     (Inl (CliError ''GIT_COMMAND_FAILED'' (e k)),
      w\<lparr>calls := calls w + k + 1,
        trace := trace w @
          concat (map (\<lambda>i. failedAttempt args retries backoffMs lg (a + i)) [0..<k]) @
          [Exec args]\<rparr>)"
  using assms
proof (induction k arbitrary: a le w e)
  case 0
  then show ?case
    by (subst runGitAttempts.simps) (simp add: execFileSync_def)
next
  case (Suc k)
  let ?w3 = "busyWait (backoffMs * 2 ^ a)
      (logger_warn lg (retryMessage args a retries (backoffMs * 2 ^ a))
        (w\<lparr>calls := Suc (calls w), trace := trace w @ [Exec args]\<rparr>))"
  have w3: "?w3 = w\<lparr>calls := Suc (calls w),
      trace := trace w @ failedAttempt args retries backoffMs lg a\<rparr>"
    by (simp add: failed_attempt_world failedAttempt_def)
  from Suc.prems have first: "git ev (calls w) args = Inl (e 0)" by auto
  from Suc.prems have lt: "int a < retries" by auto
  have step: "runGitAttempts ev args retries backoffMs lg a le w =
      runGitAttempts ev args retries backoffMs lg (Suc a) (Some (e 0)) ?w3"
    using first lt by (subst runGitAttempts.simps) (simp add: execFileSync_def)
  have "\<forall>i\<le>k. git ev (calls ?w3 + i) args = Inl ((e \<circ> Suc) i)"
  proof (intro allI impI)
    fix i assume "i \<le> k"
    with Suc.prems(1) have "git ev (calls w + Suc i) args = Inl (e (Suc i))" by auto
    then show "git ev (calls ?w3 + i) args = Inl ((e \<circ> Suc) i)" by (simp add: w3)
  qed
  moreover have "int (Suc a + k) = retries"
    using Suc.prems(2) by simp
  ultimately have "runGitAttempts ev args retries backoffMs lg (Suc a) (Some (e 0)) ?w3 =
     (Inl (CliError ''GIT_COMMAND_FAILED'' ((e \<circ> Suc) k)),
      ?w3\<lparr>calls := calls ?w3 + k + 1,
        trace := trace ?w3 @
          concat (map (\<lambda>i. failedAttempt args retries backoffMs lg (Suc a + i)) [0..<k]) @
          [Exec args]\<rparr>)"
    by (rule Suc.IH)
  then show ?case
    unfolding step w3 by (simp add: upt_shift del: upt_Suc)
qed

lemma attempts_bounded:
  "calls (snd (runGitAttempts ev args retries backoffMs lg a le w)) \<le>
     calls w + nat (retries + 1 - int a)"
proof (induction ev args retries backoffMs lg a le w rule: runGitAttempts.induct)
  case (1 ev args retries backoffMs lg attempt lastError w)
  show ?case
  proof (cases "int attempt \<le> retries")
    case False
    then show ?thesis by (subst runGitAttempts.simps) simp
  next
    case le: True
    show ?thesis
    proof (cases "git ev (calls w) args")
      case (Inr out)
      with le show ?thesis by (subst runGitAttempts.simps) (simp add: execFileSync_def)
    next
      case (Inl e)
      show ?thesis
      proof (cases "int attempt < retries")
        case False
        with le Inl show ?thesis by (subst runGitAttempts.simps) (simp add: execFileSync_def)
      next
        case True
        let ?w1 = "w\<lparr>calls := Suc (calls w), trace := trace w @ [Exec args]\<rparr>"
        let ?w3 = "busyWait (backoffMs * 2 ^ attempt)
          (logger_warn lg (retryMessage args attempt retries (backoffMs * 2 ^ attempt)) ?w1)"
        have ex: "execFileSync ev args w = (Inl e, ?w1)"
          using Inl by (simp add: execFileSync_def)
        have ih: "calls (snd (runGitAttempts ev args retries backoffMs lg (Suc attempt) (Some e) ?w3))
            \<le> calls ?w3 + nat (retries + 1 - int (Suc attempt))"
          using "1.IH" [OF le ex [symmetric] refl True] by simp
        have c3: "calls ?w3 = Suc (calls w)"
          by (simp add: failed_attempt_world)
        have step: "runGitAttempts ev args retries backoffMs lg attempt lastError w =
            runGitAttempts ev args retries backoffMs lg (Suc attempt) (Some e) ?w3"
          using le True Inl by (subst runGitAttempts.simps) (simp add: execFileSync_def)
        from ih c3 True show ?thesis unfolding step by simp
      qed
    qed
  qed
qed

text \<open>
  C4, as amended. A call of \<open>runGitWithRetry\<close> runs the external tool at most
  \<open>retries + 1\<close> times (not at all when \<open>retries\<close> is negative). When the first \<open>k\<close> attempts
  fail and attempt \<open>k + 1\<close> succeeds, with \<open>k \<le> retries\<close>, the call returns the output of
  that attempt, and each failed attempt is followed by a warning handed to the logger,
  printed on standard error unless the logger is quiet, and then by a wait of
  \<open>backoffMs * 2^i\<close> milliseconds for \<open>i = 0, ..., k - 1\<close>. When all \<open>retries + 1\<close> attempts
  fail, the call fails with \<open>GIT_COMMAND_FAILED\<close> and the message of the last failure, after
  the same warnings and waits between the attempts.
\<close>

theorem runGitWithRetry_attempts:
  "((\<forall>i<k. git ev (calls w + i) args = Inl (e i)) \<and> git ev (calls w + k) args = Inr out \<and>
     int k \<le> retries \<longrightarrow>
      runGitWithRetry ev args retries backoffMs lg w =
        (Inr out,
         w\<lparr>calls := calls w + k + 1,
           trace := trace w @
             concat (map (failedAttempt args retries backoffMs lg) [0..<k]) @ [Exec args]\<rparr>))
   \<and> ((\<forall>i\<le>k. git ev (calls w + i) args = Inl (e i)) \<and> int k = retries \<longrightarrow>
      runGitWithRetry ev args retries backoffMs lg w =
        (Inl (CliError ''GIT_COMMAND_FAILED'' (e k)),
         w\<lparr>calls := calls w + k + 1,
           trace := trace w @
             concat (map (failedAttempt args retries backoffMs lg) [0..<k]) @ [Exec args]\<rparr>))
   \<and> calls (snd (runGitWithRetry ev args retries backoffMs lg w)) \<le> calls w + nat (retries + 1)"
proof (intro conjI impI)
  assume "(\<forall>i<k. git ev (calls w + i) args = Inl (e i)) \<and> git ev (calls w + k) args = Inr out \<and>
     int k \<le> retries"
  then have "\<forall>i<k. git ev (calls w + i) args = Inl (e i)" and "git ev (calls w + k) args = Inr out"
    and "int (0 + k) \<le> retries" by simp_all
  from attempts_until_success [OF this, of backoffMs lg None]
  show "runGitWithRetry ev args retries backoffMs lg w =
        (Inr out,
         w\<lparr>calls := calls w + k + 1,
           trace := trace w @
             concat (map (failedAttempt args retries backoffMs lg) [0..<k]) @ [Exec args]\<rparr>)"
    by (simp add: runGitWithRetry_def)
next
  assume "(\<forall>i\<le>k. git ev (calls w + i) args = Inl (e i)) \<and> int k = retries"
  then have "\<forall>i\<le>k. git ev (calls w + i) args = Inl (e i)" and "int (0 + k) = retries"
    by simp_all
  from attempts_all_fail [OF this, of backoffMs lg None]
  show "runGitWithRetry ev args retries backoffMs lg w =
        (Inl (CliError ''GIT_COMMAND_FAILED'' (e k)),
         w\<lparr>calls := calls w + k + 1,
           trace := trace w @
             concat (map (failedAttempt args retries backoffMs lg) [0..<k]) @ [Exec args]\<rparr>)"
    by (simp add: runGitWithRetry_def)
next
  show "calls (snd (runGitWithRetry ev args retries backoffMs lg w)) \<le> calls w + nat (retries + 1)"
    using attempts_bounded [of ev args retries backoffMs lg 0 None w]
    by (simp add: runGitWithRetry_def)
qed

lemma exampleWorld_calls: "calls exampleWorld = 0"
  by (simp add: exampleWorld_def)

lemma exampleWorld_trace: "trace exampleWorld = []"
  by (simp add: exampleWorld_def)

lemma retry_message_1: "redactSecrets (retryMessage [''fetch''] 0 2 500) = ''git fetch failed (attempt 1 of 3). Retrying in 500ms...''"
  by code_simp

lemma retry_message_2: "redactSecrets (retryMessage [''fetch''] 1 2 1000) = ''git fetch failed (attempt 2 of 3). Retrying in 1000ms...''"
  by code_simp

theorem runGitWithRetry_attempts_witness:
  "runGitWithRetry (exampleEnv (flaky 2)) [''fetch''] 2 500 (createLogger False False) exampleWorld =
     (Inr ''ok'',
      exampleWorld\<lparr>calls := 3,
        trace := [Exec [''fetch''],
                  Stderr ''git fetch failed (attempt 1 of 3). Retrying in 500ms...'', Wait 500,
                  Exec [''fetch''],
                  Stderr ''git fetch failed (attempt 2 of 3). Retrying in 1000ms...'', Wait 1000,
                  Exec [''fetch'']]\<rparr>)
   \<and> runGitWithRetry (exampleEnv (flaky 3)) [''fetch''] 2 500 (createLogger False False) exampleWorld =
     (Inl (CliError ''GIT_COMMAND_FAILED'' ''ETIMEDOUT''),
      exampleWorld\<lparr>calls := 3,
        trace := [Exec [''fetch''],
                  Stderr ''git fetch failed (attempt 1 of 3). Retrying in 500ms...'', Wait 500,
                  Exec [''fetch''],
                  Stderr ''git fetch failed (attempt 2 of 3). Retrying in 1000ms...'', Wait 1000,
                  Exec [''fetch'']]\<rparr>)"
proof -
  let ?lg = "createLogger False False"
  have q: "\<not> quiet ?lg" by (simp add: createLogger_def)
  have two: "[0..<2] = [0, Suc 0]" by (simp add: upt_conv_Cons)
  have tr: "concat (map (failedAttempt [''fetch''] 2 500 ?lg) [0..<2]) @ [Exec [''fetch'']] =
      [Exec [''fetch''],
       Stderr ''git fetch failed (attempt 1 of 3). Retrying in 500ms...'', Wait 500,
       Exec [''fetch''],
       Stderr ''git fetch failed (attempt 2 of 3). Retrying in 1000ms...'', Wait 1000,
       Exec [''fetch'']]"
    unfolding two using retry_message_1 retry_message_2 q by (simp add: failedAttempt_def)
  note t = runGitWithRetry_attempts [where k = 2 and w = exampleWorld and args = "[''fetch'']"
      and e = "\<lambda>i. ''ETIMEDOUT''" and out = "''ok''" and retries = 2 and backoffMs = 500
      and lg = ?lg]
  have a: "runGitWithRetry (exampleEnv (flaky 2)) [''fetch''] 2 500 ?lg exampleWorld =
     (Inr ''ok'',
      exampleWorld\<lparr>calls := calls exampleWorld + 2 + 1,
        trace := trace exampleWorld @
          concat (map (failedAttempt [''fetch''] 2 500 ?lg) [0..<2]) @ [Exec [''fetch'']]\<rparr>)"
    using t [where ev = "exampleEnv (flaky 2)", THEN conjunct1]
    by (simp add: exampleEnv_def flaky_def exampleWorld_calls)
  have b: "runGitWithRetry (exampleEnv (flaky 3)) [''fetch''] 2 500 ?lg exampleWorld =
     (Inl (CliError ''GIT_COMMAND_FAILED'' ''ETIMEDOUT''),
      exampleWorld\<lparr>calls := calls exampleWorld + 2 + 1,
        trace := trace exampleWorld @
          concat (map (failedAttempt [''fetch''] 2 500 ?lg) [0..<2]) @ [Exec [''fetch'']]\<rparr>)"
    using t [where ev = "exampleEnv (flaky 3)", THEN conjunct2, THEN conjunct1]
    by (simp add: exampleEnv_def flaky_def exampleWorld_calls)
  have c: "calls exampleWorld + 2 + 1 = 3" "trace exampleWorld = []"
    by (simp_all add: exampleWorld_def)
  from a b show ?thesis unfolding tr c by simp
qed

text \<open>
  C4, as stated, fails under a quiet logger (\<open>--quiet\<close> or \<open>--json\<close>): the first attempt
  fails, the call waits 500 milliseconds and tries again, and nothing is printed.
\<close>

theorem runGitWithRetry_quiet_wait_without_warning:
  "runGitWithRetry (exampleEnv (flaky 1)) [''fetch''] 2 500 (createLogger True False) exampleWorld =
     (Inr ''ok'',
      exampleWorld\<lparr>calls := 2, trace := [Exec [''fetch''], Wait 500, Exec [''fetch'']]\<rparr>)"
proof -
  let ?lg = "createLogger True False"
  have "runGitAttempts (exampleEnv (flaky 1)) [''fetch''] 2 500 ?lg 0 None exampleWorld =
     (Inr ''ok'',
      exampleWorld\<lparr>calls := calls exampleWorld + 1 + 1,
        trace := trace exampleWorld @
          concat (map (\<lambda>i. failedAttempt [''fetch''] 2 500 ?lg (0 + i)) [0..<1]) @
          [Exec [''fetch'']]\<rparr>)"
    by (rule attempts_until_success [where e = "\<lambda>i. ''ETIMEDOUT''"])
       (simp_all add: exampleEnv_def flaky_def exampleWorld_calls)
  then show ?thesis
    by (simp add: runGitWithRetry_def failedAttempt_def createLogger_def exampleWorld_calls
        exampleWorld_trace)
qed

section \<open>The destination writer: size ceiling and existing files\<close>

lemma mkdirAll_error: "mkdirAll ds t = Inl e \<Longrightarrow> codeOf e = ''UNKNOWN_ERROR''"
  by (induction ds arbitrary: t) (auto split: option.splits node.splits)

lemma mkdirSync_error: "mkdirSync d w = Inl e \<Longrightarrow> codeOf e = ''UNKNOWN_ERROR''"
  by (auto simp: mkdirSync_def split: sum.splits dest: mkdirAll_error)

lemma writeFileSync_error: "writeFileSync p c w = Inl e \<Longrightarrow> codeOf e = ''UNKNOWN_ERROR''"
  by (auto simp: writeFileSync_def split: if_splits option.splits node.splits)

lemma readFileSync_error: "readFileSync p w = Inl e \<Longrightarrow> codeOf e = ''UNKNOWN_ERROR''"
  by (auto simp: readFileSync_def split: option.splits node.splits)

lemma ensureDirFor_error: "ensureDirFor p w = Inl e \<Longrightarrow> codeOf e = ''UNKNOWN_ERROR''"
  by (auto simp: ensureDirFor_def Let_def split: if_splits dest: mkdirSync_error)

lemma writeDestFile_out_of_bounds:
  "\<not> withinRoot ev root (destPath rf) \<Longrightarrow>
   writeDestFile ev contents rf root dryRun force maxBytes lg w =
     (Inl (CliError ''DEST_OUT_OF_BOUNDS''
        (''Destination escapes output directory: '' @ [quote] @ destPath rf @ [quote])), w)"
  by (simp add: writeDestFile_def withinRoot_def Let_def)

lemma writeDestFile_too_large:
  "withinRoot ev root (destPath rf) \<Longrightarrow> maxBytes < int (length contents) \<Longrightarrow>
   writeDestFile ev contents rf root dryRun force maxBytes lg w =
     (Inl (CliError ''FILE_TOO_LARGE''
        (''Source file '' @ [quote] @ filePath rf @ [quote] @ '' is too large ('' @
         numberToString (int (length contents)) @ '' bytes). Limit is '' @
         numberToString maxBytes @ '' bytes. Use --max-bytes to adjust.'')), w)"
  by (simp add: writeDestFile_def withinRoot_def Let_def)

lemma writeDestFile_skip:
  "withinRoot ev root (destPath rf) \<Longrightarrow> int (length contents) \<le> maxBytes \<Longrightarrow>
   existsSync w (resolve (cwd ev) [root, destPath rf]) \<Longrightarrow> \<not> force \<Longrightarrow>
   writeDestFile ev contents rf root dryRun force maxBytes lg w =
     (Inr (resolve (cwd ev) [root, destPath rf], False),
      logger_warn lg
        (''Skipping existing '' @ [quote] @ resolve (cwd ev) [root, destPath rf] @ [quote] @
         ''. Use --force to overwrite.'') w)"
  by (simp add: writeDestFile_def withinRoot_def Let_def)

lemma writeDestFile_simulated:
  "withinRoot ev root (destPath rf) \<Longrightarrow> int (length contents) \<le> maxBytes \<Longrightarrow>
   \<not> (existsSync w (resolve (cwd ev) [root, destPath rf]) \<and> \<not> force) \<Longrightarrow>
   writeDestFile ev contents rf root True force maxBytes lg w =
     (Inr (resolve (cwd ev) [root, destPath rf], False),
      logger_log lg
        (''Fetched '' @ filePath rf @ '' from '' @ repo rf @ ''@'' @ ref rf @ '' -> '' @
         resolve (cwd ev) [root, destPath rf]) w)"
  by (auto simp add: writeDestFile_def withinRoot_def Let_def)

lemma writeDestFile_writes:
  "withinRoot ev root (destPath rf) \<Longrightarrow> int (length contents) \<le> maxBytes \<Longrightarrow>
   \<not> (existsSync w (resolve (cwd ev) [root, destPath rf]) \<and> \<not> force) \<Longrightarrow>
   writeDestFile ev contents rf root False force maxBytes lg w =
     (case ensureDirFor (resolve (cwd ev) [root, destPath rf]) w of
        Inl e \<Rightarrow> (Inl e, w)
      | Inr w1 \<Rightarrow>
          (case writeFileSync (resolve (cwd ev) [root, destPath rf]) contents w1 of
             Inl e \<Rightarrow> (Inl e, w1)
           | Inr w2 \<Rightarrow>
               (Inr (resolve (cwd ev) [root, destPath rf], True),
                logger_log lg
                  (''Fetched '' @ filePath rf @ '' from '' @ repo rf @ ''@'' @ ref rf @
                   '' -> '' @ resolve (cwd ev) [root, destPath rf]) w2)))"
  by (auto simp add: writeDestFile_def withinRoot_def Let_def)

lemma writeDestFile_accepts:
  assumes "withinRoot ev root (destPath rf)" and "int (length contents) \<le> maxBytes"
  shows "case fst (writeDestFile ev contents rf root dryRun force maxBytes lg w) of
           Inr (file, wrote) \<Rightarrow> file = resolve (cwd ev) [root, destPath rf]
         | Inl e \<Rightarrow> \<not> dryRun \<and> codeOf e = ''UNKNOWN_ERROR''"
proof (cases "existsSync w (resolve (cwd ev) [root, destPath rf]) \<and> \<not> force")
  case True
  with assms show ?thesis by (simp add: writeDestFile_skip)
next
  case False
  show ?thesis
  proof (cases dryRun)
    case True
    with assms False show ?thesis by (simp add: writeDestFile_simulated)
  next
    case real: False
    then have "dryRun = False" by simp
    then show ?thesis
      using writeDestFile_writes [OF assms False, of lg]
      by (auto split: sum.splits dest: ensureDirFor_error writeFileSync_error)
  qed
qed

text \<open>
  C7. For a destination that passes the containment check, content longer than the
  ceiling is rejected with \<open>FILE_TOO_LARGE\<close>, the message giving the file path, the length of
  the content, the ceiling and the hint \<open>Use --max-bytes to adjust.\<close>, and nothing is
  written. Content no longer than the ceiling, so also content of exactly the ceiling, is
  accepted: the writer returns the resolved destination, or, when it really writes, fails
  only with an error of the file system.
\<close>

theorem writeDestFile_size_ceiling:
  "withinRoot ev root (destPath rf) \<longrightarrow>
     (maxBytes < int (length contents) \<longrightarrow>
        writeDestFile ev contents rf root dryRun force maxBytes lg w =
          (Inl (CliError ''FILE_TOO_LARGE''
             (''Source file '' @ [quote] @ filePath rf @ [quote] @ '' is too large ('' @
              numberToString (int (length contents)) @ '' bytes). Limit is '' @
              numberToString maxBytes @ '' bytes. Use --max-bytes to adjust.'')), w))
   \<and> (int (length contents) \<le> maxBytes \<longrightarrow>
        (case fst (writeDestFile ev contents rf root dryRun force maxBytes lg w) of
           Inr (file, wrote) \<Rightarrow> file = resolve (cwd ev) [root, destPath rf]
         | Inl e \<Rightarrow> \<not> dryRun \<and> codeOf e = ''UNKNOWN_ERROR''))"
  using writeDestFile_too_large [of ev root rf maxBytes contents dryRun force lg w]
    writeDestFile_accepts [of ev root rf contents maxBytes dryRun force lg w]
  by (intro impI conjI) assumption+

lemmas resolve_eval =
  resolve_def normalizeString_def normStep_def startsWith_def sep_def

lemma example_within_root: "withinRoot (exampleEnv g) ''/out'' (destPath exampleRemote)"
  by (simp add: withinRoot_def exampleEnv_def exampleRemote_def resolve_eval)

lemma example_destFile: "resolve (cwd (exampleEnv g)) [''/out'', destPath exampleRemote] = ''/out/a.txt''"
  by (simp add: exampleEnv_def exampleRemote_def resolve_eval)

lemma number_5: "numberToString 5 = ''5''"
  by code_simp

lemma number_6: "numberToString 6 = ''6''"
  by code_simp

lemma example_write:
  "fst (writeDestFile (exampleEnv g) ''hello'' exampleRemote ''/out'' False False 5 lg
     exampleWorld) = Inr (''/out/a.txt'', True)"
proof -
  have "\<not> (existsSync exampleWorld (resolve (cwd (exampleEnv g)) [''/out'', destPath exampleRemote])
      \<and> \<not> False)"
    by (simp add: example_destFile existsSync_def exampleWorld_def)
  from writeDestFile_writes [where contents = "''hello''" and maxBytes = 5 and lg = lg,
      OF example_within_root _ this]
  show ?thesis
    by (simp add: example_destFile ensureDirFor_def dirname_def existsSync_def
        writeFileSync_def exampleWorld_def)
qed

theorem writeDestFile_size_ceiling_witness:
  "writeDestFile (exampleEnv (flaky 0)) ''hello!'' exampleRemote ''/out'' False False 5
       (createLogger True False) exampleWorld =
     (Inl (CliError ''FILE_TOO_LARGE''
        (''Source file '' @ [quote] @ ''a.txt'' @ [quote] @
         '' is too large (6 bytes). Limit is 5 bytes. Use --max-bytes to adjust.'')),
      exampleWorld)
   \<and> fst (writeDestFile (exampleEnv (flaky 0)) ''hello'' exampleRemote ''/out'' False False 5
       (createLogger True False) exampleWorld) = Inr (''/out/a.txt'', True)"
proof -
  note t = writeDestFile_size_ceiling [where ev = "exampleEnv (flaky 0)" and root = "''/out''"
      and rf = exampleRemote and maxBytes = 5 and dryRun = False and force = False
      and lg = "createLogger True False" and w = exampleWorld]
  have a: "writeDestFile (exampleEnv (flaky 0)) ''hello!'' exampleRemote ''/out'' False False 5
       (createLogger True False) exampleWorld =
     (Inl (CliError ''FILE_TOO_LARGE''
        (''Source file '' @ [quote] @ ''a.txt'' @ [quote] @
         '' is too large (6 bytes). Limit is 5 bytes. Use --max-bytes to adjust.'')),
      exampleWorld)"
    using t [where contents = "''hello!''", THEN mp, OF example_within_root, THEN conjunct1]
    by (simp add: number_5 number_6 exampleRemote_def)
  have "case fst (writeDestFile (exampleEnv (flaky 0)) ''hello'' exampleRemote ''/out'' False False 5
       (createLogger True False) exampleWorld) of
           Inr (file, wrote) \<Rightarrow> file = ''/out/a.txt''
         | Inl e \<Rightarrow> codeOf e = ''UNKNOWN_ERROR''"
    using t [where contents = "''hello''", THEN mp, OF example_within_root, THEN conjunct2]
    by (auto simp: example_destFile split: sum.splits)
  moreover note example_write [of "flaky 0" "createLogger True False"]
  ultimately show ?thesis using a by simp
qed

lemma fs_logger_log: "fs (logger_log lg m w) = fs w"
  by (simp add: logger_log_def emit_def)

lemma fs_logger_warn: "fs (logger_warn lg m w) = fs w"
  by (simp add: logger_warn_def emit_def)

lemma fs_logger_error: "fs (logger_error lg m w) = fs w"
  by (simp add: logger_error_def emit_def)

lemma fs_logger_verbose: "fs (logger_verbose lg m w) = fs w"
  by (simp add: logger_verbose_def emit_def)

lemma writeFileSync_written: "writeFileSync p c w = Inr w' \<Longrightarrow> fs w' p = Some (File c)"
  by (auto simp: writeFileSync_def split: if_splits option.splits node.splits)

lemma writeDestFile_wrote:
  assumes "writeDestFile ev contents rf root False False maxBytes lg w = (Inr (dest, True), w1)"
  shows "withinRoot ev root (destPath rf) \<and> dest = resolve (cwd ev) [root, destPath rf] \<and>
         fs w1 dest = Some (File contents)"
proof -
  have within: "withinRoot ev root (destPath rf)"
    using assms writeDestFile_out_of_bounds [of ev root rf contents False False maxBytes lg w]
    by (cases "withinRoot ev root (destPath rf)") auto
  have size: "int (length contents) \<le> maxBytes"
    using assms writeDestFile_too_large [OF within, of maxBytes contents False False lg w]
    by (cases "maxBytes < int (length contents)") auto
  have fresh: "\<not> (existsSync w (resolve (cwd ev) [root, destPath rf]) \<and> \<not> False)"
    using assms writeDestFile_skip [OF within size, of w False False lg]
    by (cases "existsSync w (resolve (cwd ev) [root, destPath rf])") auto
  from assms writeDestFile_writes [OF within size fresh, of lg]
  have "dest = resolve (cwd ev) [root, destPath rf] \<and> fs w1 dest = Some (File contents)"
    by (auto split: sum.splits simp: fs_logger_log dest: writeFileSync_written)
  with within show ?thesis by blast
qed

text \<open>
  C8, as amended. When the request passes the containment check, the content is within the
  ceiling, the destination exists and overwrite is not requested, the writer writes
  nothing, hands a warning to the logger (printed on standard error unless the logger is
  quiet) and returns the destination with \<open>wrote = false\<close>. Hence, when a first call with
  overwrite and simulation off has written the file, a second call for the same request
  with content within the ceiling returns \<open>wrote = false\<close> and leaves the file tree as the
  first call left it, with the content of the first call at the destination.
\<close>

theorem writeDestFile_skips_existing:
  "(withinRoot ev root (destPath rf) \<and> int (length contents) \<le> maxBytes \<and>
    existsSync w (resolve (cwd ev) [root, destPath rf]) \<and> \<not> force \<longrightarrow>
      writeDestFile ev contents rf root dryRun force maxBytes lg w =
        (Inr (resolve (cwd ev) [root, destPath rf], False),
         if quiet lg then w
         else emit (Stderr (redactSecrets
                (''Skipping existing '' @ [quote] @ resolve (cwd ev) [root, destPath rf] @
                 [quote] @ ''. Use --force to overwrite.''))) w))
   \<and> (writeDestFile ev older rf root False False maxBytes lg w = (Inr (dest, True), w') \<and>
      int (length newer) \<le> maxBytes \<longrightarrow>
        fs w' dest = Some (File older) \<and>
        (\<exists>w2. writeDestFile ev newer rf root False False maxBytes lg w' = (Inr (dest, False), w2) \<and>
              fs w2 = fs w'))"
proof (rule conjI; rule impI)
  assume h: "withinRoot ev root (destPath rf) \<and> int (length contents) \<le> maxBytes \<and>
    existsSync w (resolve (cwd ev) [root, destPath rf]) \<and> \<not> force"
  then have "withinRoot ev root (destPath rf)" and "int (length contents) \<le> maxBytes"
    and "existsSync w (resolve (cwd ev) [root, destPath rf])" and "\<not> force" by simp_all
  from writeDestFile_skip [OF this]
  show "writeDestFile ev contents rf root dryRun force maxBytes lg w =
        (Inr (resolve (cwd ev) [root, destPath rf], False),
         if quiet lg then w
         else emit (Stderr (redactSecrets
                (''Skipping existing '' @ [quote] @ resolve (cwd ev) [root, destPath rf] @
                 [quote] @ ''. Use --force to overwrite.''))) w)"
    by (simp add: logger_warn_def)
next
  assume h: "writeDestFile ev older rf root False False maxBytes lg w = (Inr (dest, True), w') \<and>
      int (length newer) \<le> maxBytes"
  then have first: "writeDestFile ev older rf root False False maxBytes lg w = (Inr (dest, True), w')"
    and size: "int (length newer) \<le> maxBytes" by simp_all
  from writeDestFile_wrote [OF first]
  have within: "withinRoot ev root (destPath rf)"
    and dest: "dest = resolve (cwd ev) [root, destPath rf]"
    and written: "fs w' dest = Some (File older)" by blast+
  from written dest have ex: "existsSync w' (resolve (cwd ev) [root, destPath rf])"
    by (simp add: existsSync_def)
  have "writeDestFile ev newer rf root False False maxBytes lg w' =
      (Inr (dest, False),
       logger_warn lg (''Skipping existing '' @ [quote] @ resolve (cwd ev) [root, destPath rf] @
         [quote] @ ''. Use --force to overwrite.'') w')"
    using writeDestFile_skip [OF within size ex, of False False lg] dest by simp
  then have "\<exists>w2. writeDestFile ev newer rf root False False maxBytes lg w' = (Inr (dest, False), w2) \<and>
      fs w2 = fs w'"
    by (simp add: fs_logger_warn)
  with written show "fs w' dest = Some (File older) \<and>
        (\<exists>w2. writeDestFile ev newer rf root False False maxBytes lg w' = (Inr (dest, False), w2) \<and>
              fs w2 = fs w')" by simp
qed

lemma existing_destFile_exists:
  "existsSync existingWorld (resolve (cwd (exampleEnv g)) [''/out'', destPath exampleRemote])"
  by (simp add: example_destFile existsSync_def existingWorld_def)

lemma skip_message:
  "redactSecrets (''Skipping existing '' @ [quote] @ ''/out/a.txt'' @ [quote] @
     ''. Use --force to overwrite.'') =
   ''Skipping existing '' @ [quote] @ ''/out/a.txt'' @ [quote] @ ''. Use --force to overwrite.''"
  by code_simp


theorem writeDestFile_skips_existing_witness:
  "writeDestFile (exampleEnv (flaky 0)) ''hello'' exampleRemote ''/out'' False False 5
       (createLogger False False) existingWorld =
     (Inr (''/out/a.txt'', False),
      emit (Stderr (''Skipping existing '' @ [quote] @ ''/out/a.txt'' @ [quote] @
              ''. Use --force to overwrite.'')) existingWorld)
   \<and> (\<exists>w2. writeDestFile (exampleEnv (flaky 0)) ''HELLO'' exampleRemote ''/out'' False False 5
          (createLogger False False)
          (snd (writeDestFile (exampleEnv (flaky 0)) ''hello'' exampleRemote ''/out'' False False 5
             (createLogger False False) exampleWorld)) = (Inr (''/out/a.txt'', False), w2)
        \<and> fs w2 ''/out/a.txt'' = Some (File ''hello''))"
proof -
  let ?ev = "exampleEnv (flaky 0)" and ?lg = "createLogger False False"
  let ?w1 = "snd (writeDestFile ?ev ''hello'' exampleRemote ''/out'' False False 5 ?lg exampleWorld)"
  have nq: "quiet ?lg = False" by (simp add: createLogger_def)
  have hyp: "withinRoot ?ev ''/out'' (destPath exampleRemote) \<and> int (length ''hello'') \<le> 5 \<and>
      existsSync existingWorld (resolve (cwd ?ev) [''/out'', destPath exampleRemote]) \<and> \<not> False"
    using example_within_root [of "flaky 0"] existing_destFile_exists [of "flaky 0"] by simp
  have a: "writeDestFile ?ev ''hello'' exampleRemote ''/out'' False False 5 ?lg existingWorld =
     (Inr (''/out/a.txt'', False),
      emit (Stderr (''Skipping existing '' @ [quote] @ ''/out/a.txt'' @ [quote] @
              ''. Use --force to overwrite.'')) existingWorld)"
    using writeDestFile_skips_existing [where ev = ?ev and root = "''/out''" and rf = exampleRemote
        and contents = "''hello''" and maxBytes = 5 and w = existingWorld and force = False
        and dryRun = False and lg = ?lg, THEN conjunct1, THEN mp, OF hyp]
    unfolding example_destFile skip_message nq if_False .
  have first: "writeDestFile ?ev ''hello'' exampleRemote ''/out'' False False 5 ?lg exampleWorld =
      (Inr (''/out/a.txt'', True), ?w1) \<and> int (length ''HELLO'') \<le> 5"
    using example_write [of "flaky 0" ?lg] by (simp add: prod_eq_iff)
  have "fs ?w1 ''/out/a.txt'' = Some (File ''hello'') \<and>
      (\<exists>w2. writeDestFile ?ev ''HELLO'' exampleRemote ''/out'' False False 5 ?lg ?w1 =
          (Inr (''/out/a.txt'', False), w2) \<and> fs w2 = fs ?w1)"
    by (rule writeDestFile_skips_existing [where ev = ?ev and root = "''/out''"
        and rf = exampleRemote and older = "''hello''" and newer = "''HELLO''" and maxBytes = 5
        and w = exampleWorld and lg = ?lg and dest = "''/out/a.txt''",
        THEN conjunct2, THEN mp, OF first])
  then obtain w2 where "writeDestFile ?ev ''HELLO'' exampleRemote ''/out'' False False 5 ?lg ?w1 =
          (Inr (''/out/a.txt'', False), w2)" and "fs w2 = fs ?w1"
    and "fs ?w1 ''/out/a.txt'' = Some (File ''hello'')" by blast
  then have "\<exists>w2. writeDestFile ?ev ''HELLO'' exampleRemote ''/out'' False False 5 ?lg ?w1 =
          (Inr (''/out/a.txt'', False), w2) \<and> fs w2 ''/out/a.txt'' = Some (File ''hello'')"
    by simp
  with a show ?thesis by (rule conjI)
qed
text \<open>
  C8, as stated, fails: the destination exists and overwrite is not requested, yet the
  call fails with \<open>FILE_TOO_LARGE\<close>, since the size check comes before the check for an
  existing file.
\<close>

theorem writeDestFile_existing_but_too_large:
  "existsSync existingWorld ''/out/a.txt''
   \<and> writeDestFile (exampleEnv (flaky 0)) ''hello!'' exampleRemote ''/out'' False False 5
       (createLogger False False) existingWorld =
     (Inl (CliError ''FILE_TOO_LARGE''
        (''Source file '' @ [quote] @ ''a.txt'' @ [quote] @
         '' is too large (6 bytes). Limit is 5 bytes. Use --max-bytes to adjust.'')),
      existingWorld)"
proof -
  have "existsSync existingWorld ''/out/a.txt''"
    by (simp add: existsSync_def existingWorld_def)
  moreover have "writeDestFile (exampleEnv (flaky 0)) ''hello!'' exampleRemote ''/out'' False False 5
       (createLogger False False) existingWorld =
     (Inl (CliError ''FILE_TOO_LARGE''
        (''Source file '' @ [quote] @ ''a.txt'' @ [quote] @
         '' is too large (6 bytes). Limit is 5 bytes. Use --max-bytes to adjust.'')),
      existingWorld)"
    using writeDestFile_too_large [OF example_within_root, of 5 "''hello!''" "flaky 0" False False
        "createLogger False False" existingWorld]
    by (simp add: number_5 number_6 exampleRemote_def)
  ultimately show ?thesis by simp
qed

section \<open>The loop over the references\<close>

lemma main_loop_acc:
  "main_loop ev opts es acc ec w =
     (case main_loop ev opts es [] 0 w of
        (rs, ec', w') \<Rightarrow> (acc @ rs, if list_all success rs then ec else 1, w'))"
proof (induction es arbitrary: acc ec w)
  case Nil
  show ?case by simp
next
  case (Cons x xs)
  obtain r w1 where item: "main_item ev opts x w = (r, w1)" by (cases "main_item ev opts x w")
  obtain rs ec' w' where rest: "main_loop ev opts xs [] 0 w1 = (rs, ec', w')"
    by (cases "main_loop ev opts xs [] 0 w1") auto
  have l: "main_loop ev opts (x # xs) acc ec w =
      (acc @ r # rs, if list_all success rs then (if success r then ec else 1) else 1, w')"
    using item rest Cons.IH [of "acc @ [r]" "if success r then ec else 1" w1] by simp
  have r: "main_loop ev opts (x # xs) [] 0 w =
      (r # rs, if list_all success rs then (if success r then 0 else 1) else 1, w')"
    using item rest Cons.IH [of "[r]" "if success r then 0 else 1" w1] by simp
  show ?case unfolding l r by simp
qed


lemma main_loop_Cons:
  "main_loop ev opts (x # xs) [] 0 w =
     (case main_item ev opts x w of
        (r, w1) \<Rightarrow>
          (case main_loop ev opts xs [] 0 w1 of
             (rs, ec, w') \<Rightarrow> (r # rs, if success r then ec else 1, w')))"
proof -
  obtain r w1 where item: "main_item ev opts x w = (r, w1)" by (cases "main_item ev opts x w")
  obtain rs ec' w' where rest: "main_loop ev opts xs [] 0 w1 = (rs, ec', w')"
    by (cases "main_loop ev opts xs [] 0 w1") auto
  have "main_loop ev opts xs [] 0 w1 = (rs, ec', w') \<Longrightarrow> ec' = (if list_all success rs then 0 else 1)"
    using main_loop_acc [of ev opts xs "[]" 0 w1] by simp
  with rest have ec': "ec' = (if list_all success rs then 0 else 1)" by simp
  show ?thesis
    using item rest main_loop_acc [of ev opts xs "[r]" "if success r then 0 else 1" w1] ec'
    by auto
qed




lemmas run_eval =
  main_def main_item_def main_try_def parseRef_def path_eval sep_def fetchFileMinimal_def
  runGitWithRetry_def runGitAttempts.simps execFileSync_def trim_def isWhiteSpace_def
  writeDestFile_def resolve_def existsSync_def ensureDirFor_def dirname_def mkdirSync_def
  ancestors_def writeFileSync_def readFileSync_def readManifest_def updateManifest_def
  loggerOf_def createLogger_def logger_log_def logger_warn_def logger_error_def
  logger_verbose_def emit_def busyWait_def matchesUserinfo_def userinfoChar_def
  exampleEnv_def exampleWorld_def exampleOptions_def gitOk_def Let_def

section \<open>Steps that leave the file tree alone\<close>

lemma framedI:
  "(\<And>w. calls w = c \<Longrightarrow> f w = (res, w\<lparr>calls := calls w + n, trace := trace w @ tr\<rparr>)) \<Longrightarrow>
   framed c f"
  unfolding framed_def by blast

lemma framed_return: "framed c (\<lambda>w. (res, w))"
  by (rule framedI [where n = 0 and tr = "[]"]) simp

lemma framed_bind:
  assumes f: "framed c f" and g: "\<And>res c'. framed c' (g res)"
  shows "framed c (\<lambda>w. case f w of (res, w') \<Rightarrow> g res w')"
proof -
  from f obtain res n tr
    where f': "\<And>w. calls w = c \<Longrightarrow> f w = (res, w\<lparr>calls := calls w + n, trace := trace w @ tr\<rparr>)"
    unfolding framed_def by blast
  from g [of "c + n" res] obtain res' n' tr'
    where g': "\<And>w. calls w = c + n \<Longrightarrow>
      g res w = (res', w\<lparr>calls := calls w + n', trace := trace w @ tr'\<rparr>)"
    unfolding framed_def by blast
  show ?thesis
  proof (rule framedI [where res = res' and n = "n + n'" and tr = "tr @ tr'"])
    fix w :: world assume c: "calls w = c"
    have "calls (w\<lparr>calls := calls w + n, trace := trace w @ tr\<rparr>) = c + n" using c by simp
    from g' [OF this] f' [OF c]
    show "(case f w of (res, w') \<Rightarrow> g res w') =
        (res', w\<lparr>calls := calls w + (n + n'), trace := trace w @ tr @ tr'\<rparr>)"
      by (simp add: add.assoc)
  qed
qed

lemma framed_after_event:
  assumes "framed c f"
  shows "framed c (\<lambda>w. f (if b then emit e w else w))"
proof -
  from assms obtain res n tr
    where f': "\<And>w. calls w = c \<Longrightarrow> f w = (res, w\<lparr>calls := calls w + n, trace := trace w @ tr\<rparr>)"
    unfolding framed_def by blast
  show ?thesis
  proof (rule framedI [where res = res and n = n and tr = "(if b then [e] else []) @ tr"])
    fix w :: world assume c: "calls w = c"
    then have "calls (if b then emit e w else w) = c" by (simp add: emit_def)
    from f' [OF this] show "f (if b then emit e w else w) =
        (res, w\<lparr>calls := calls w + n, trace := trace w @ (if b then [e] else []) @ tr\<rparr>)"
      by (simp add: emit_def)
  qed
qed

lemma framed_attempts: "framed c (runGitAttempts ev args retries backoffMs lg a le)"
proof (induction "nat (retries + 1 - int a)" arbitrary: a le c)
  case 0
  then have "\<not> int a \<le> retries" by simp
  then have "runGitAttempts ev args retries backoffMs lg a le =
      (\<lambda>w. (Inl (CliError ''GIT_COMMAND_FAILED'' (case le of Some e \<Rightarrow> e | None \<Rightarrow> ''undefined'')), w))"
    by (intro ext, subst runGitAttempts.simps) simp
  then show ?case by (simp add: framed_return)
next
  case (Suc m)
  then have le: "int a \<le> retries" by simp
  show ?case
  proof (cases "git ev c args")
    case (Inr out)
    show ?thesis
    proof (rule framedI [where res = "Inr out" and n = 1 and tr = "[Exec args]"])
      fix w :: world assume "calls w = c"
      with Inr le show "runGitAttempts ev args retries backoffMs lg a le w =
          (Inr out, w\<lparr>calls := calls w + 1, trace := trace w @ [Exec args]\<rparr>)"
        by (subst runGitAttempts.simps) (simp add: execFileSync_def)
    qed
  next
    case (Inl e)
    show ?thesis
    proof (cases "int a < retries")
      case False
      show ?thesis
      proof (rule framedI [where res = "Inl (CliError ''GIT_COMMAND_FAILED'' e)" and n = 1
            and tr = "[Exec args]"])
        fix w :: world assume "calls w = c"
        with Inl le False show "runGitAttempts ev args retries backoffMs lg a le w =
            (Inl (CliError ''GIT_COMMAND_FAILED'' e),
             w\<lparr>calls := calls w + 1, trace := trace w @ [Exec args]\<rparr>)"
          by (subst runGitAttempts.simps) (simp add: execFileSync_def)
      qed
    next
      case True
      from Suc.hyps(2) have "m = nat (retries + 1 - int (Suc a))" by simp
      from Suc.hyps(1) [OF this, of "Suc c" "Some e"] obtain res n tr
        where ih: "\<And>w. calls w = Suc c \<Longrightarrow>
          runGitAttempts ev args retries backoffMs lg (Suc a) (Some e) w =
            (res, w\<lparr>calls := calls w + n, trace := trace w @ tr\<rparr>)"
        unfolding framed_def by blast
      show ?thesis
      proof (rule framedI [where res = res and n = "Suc n"
            and tr = "failedAttempt args retries backoffMs lg a @ tr"])
        fix w :: world assume c: "calls w = c"
        let ?w3 = "busyWait (backoffMs * 2 ^ a)
          (logger_warn lg (retryMessage args a retries (backoffMs * 2 ^ a))
            (w\<lparr>calls := Suc (calls w), trace := trace w @ [Exec args]\<rparr>))"
        have w3: "?w3 = w\<lparr>calls := Suc (calls w),
            trace := trace w @ failedAttempt args retries backoffMs lg a\<rparr>"
          by (simp add: failed_attempt_world failedAttempt_def)
        have step: "runGitAttempts ev args retries backoffMs lg a le w =
            runGitAttempts ev args retries backoffMs lg (Suc a) (Some e) ?w3"
          using Inl le True c by (subst runGitAttempts.simps) (simp add: execFileSync_def)
        have "calls ?w3 = Suc c" unfolding w3 using c by simp
        from ih [OF this] show "runGitAttempts ev args retries backoffMs lg a le w =
            (res, w\<lparr>calls := calls w + Suc n,
                   trace := trace w @ failedAttempt args retries backoffMs lg a @ tr\<rparr>)"
          unfolding step w3 by simp
      qed
    qed
  qed
qed

lemma framed_run: "framed c (runGitWithRetry ev args retries backoffMs lg)"
  using framed_attempts [of c ev args retries backoffMs lg 0 None]
  by (simp add: runGitWithRetry_def [abs_def])

lemma framed_fs: "framed c f \<Longrightarrow> calls w = c \<Longrightarrow> fs (snd (f w)) = fs w"
  unfolding framed_def by auto

lemma framed_same:
  "framed c f \<Longrightarrow> calls w = c \<Longrightarrow> calls w' = c \<Longrightarrow>
   fst (f w) = fst (f w') \<and> calls (snd (f w)) = calls (snd (f w'))"
  unfolding framed_def by auto

lemma framed_step:
  assumes f: "framed c f" and g: "\<And>v c'. framed c' (g v)"
  shows "framed c (\<lambda>w. case f w of (Inl e, w1) \<Rightarrow> (Inl e, w1) | (Inr v, w1) \<Rightarrow> g v w1)"
proof -
  let ?g = "\<lambda>res. case res of Inl e \<Rightarrow> (\<lambda>w. (Inl e, w)) | Inr v \<Rightarrow> g v"
  have "framed c' (?g res)" for res c'
    by (cases res) (simp_all add: framed_return g)
  from framed_bind [of c f ?g, OF f this]
  have "framed c (\<lambda>w. case f w of (res, w') \<Rightarrow> ?g res w')" .
  moreover have "(\<lambda>w. case f w of (res, w') \<Rightarrow> ?g res w') =
      (\<lambda>w. case f w of (Inl e, w1) \<Rightarrow> (Inl e, w1) | (Inr v, w1) \<Rightarrow> g v w1)"
    by (intro ext) (simp split: prod.splits sum.splits)
  ultimately show ?thesis by simp
qed

lemma framed_last:
  assumes f: "framed c f"
  shows "framed c (\<lambda>w. case f w of (Inl e, w1) \<Rightarrow> (Inl (h e), w1) | (Inr v, w1) \<Rightarrow> (Inr (k v), w1))"
proof -
  let ?g = "\<lambda>res w. (case res of Inl e \<Rightarrow> Inl (h e) | Inr v \<Rightarrow> Inr (k v), w)"
  have "framed c' (?g res)" for res c' by (rule framed_return)
  from framed_bind [of c f ?g, OF f this]
  have "framed c (\<lambda>w. case f w of (res, w') \<Rightarrow> ?g res w')" .
  moreover have "(\<lambda>w. case f w of (res, w') \<Rightarrow> ?g res w') =
      (\<lambda>w. case f w of (Inl e, w1) \<Rightarrow> (Inl (h e), w1) | (Inr v, w1) \<Rightarrow> (Inr (k v), w1))"
    by (intro ext) (simp split: prod.splits sum.splits)
  ultimately show ?thesis by simp
qed


lemma framed_fetch: "framed c (fetchFileMinimal ev rf retries backoffMs lg)"
proof -
  let ?m = "''Shallow fetch of '' @ repo rf @ ''@'' @ ref rf @
     '' without checkout (git fetch + git show)''"
  let ?rest = "\<lambda>w. case runGitWithRetry ev [''init'', ''-q''] retries backoffMs lg w of
        (Inl e, w1) \<Rightarrow> (Inl e, w1)
      | (Inr _, w1) \<Rightarrow>
      (case runGitWithRetry ev [''remote'', ''add'', ''origin'', repo rf] retries backoffMs lg w1 of
        (Inl e, w2) \<Rightarrow> (Inl e, w2)
      | (Inr _, w2) \<Rightarrow>
      (case runGitWithRetry ev [''fetch'', ''--depth'', ''1'', ''origin'', ref rf]
              retries backoffMs lg w2 of
        (Inl e, w3) \<Rightarrow> (Inl e, w3)
      | (Inr _, w3) \<Rightarrow>
      (case runGitWithRetry ev [''rev-parse'', ''FETCH_HEAD''] retries backoffMs lg w3 of
        (Inl e, w4) \<Rightarrow> (Inl e, w4)
      | (Inr out, w4) \<Rightarrow>
      (case runGitWithRetry ev [''show'', trim out @ '':'' @ filePath rf] retries backoffMs lg w4 of
         (Inl e, w5) \<Rightarrow>
           (Inl (CliError ''SOURCE_FILE_NOT_FOUND''
              (''Source file '' @ [quote] @ filePath rf @ [quote] @ '' not found in '' @
               redactSecrets (repo rf @ ''@'' @ ref rf) @ '' ('' @ messageOf e @ '')'')), w5)
       | (Inr contents, w5) \<Rightarrow> (Inr (contents, trim out), w5)))))"
  let ?h = "\<lambda>e. CliError ''SOURCE_FILE_NOT_FOUND''
              (''Source file '' @ [quote] @ filePath rf @ [quote] @ '' not found in '' @
               redactSecrets (repo rf @ ''@'' @ ref rf) @ '' ('' @ messageOf e @ '')'')"
  let ?s5 = "\<lambda>out w. case runGitWithRetry ev [''show'', trim out @ '':'' @ filePath rf]
                 retries backoffMs lg w of
         (Inl e, w5) \<Rightarrow> (Inl (?h e), w5)
       | (Inr contents, w5) \<Rightarrow> (Inr (contents, trim out), w5)"
  let ?s4 = "\<lambda>w. case runGitWithRetry ev [''rev-parse'', ''FETCH_HEAD''] retries backoffMs lg w of
        (Inl e, w4) \<Rightarrow> (Inl e, w4) | (Inr out, w4) \<Rightarrow> ?s5 out w4"
  let ?s3 = "\<lambda>w. case runGitWithRetry ev [''fetch'', ''--depth'', ''1'', ''origin'', ref rf]
              retries backoffMs lg w of
        (Inl e, w3) \<Rightarrow> (Inl e, w3) | (Inr _, w3) \<Rightarrow> ?s4 w3"
  let ?s2 = "\<lambda>w. case runGitWithRetry ev [''remote'', ''add'', ''origin'', repo rf]
              retries backoffMs lg w of
        (Inl e, w2) \<Rightarrow> (Inl e, w2) | (Inr _, w2) \<Rightarrow> ?s3 w2"
  have s5: "framed c' (?s5 out)" for c' out
    by (rule framed_last [where h = ?h and k = "\<lambda>v. (v, trim out)", OF framed_run])
  have s4: "framed c' ?s4" for c'
    by (rule framed_step [where g = ?s5, OF framed_run s5])
  have s3: "framed c' ?s3" for c'
    by (rule framed_step [where g = "\<lambda>v. ?s4", OF framed_run s4])
  have s2: "framed c' ?s2" for c'
    by (rule framed_step [where g = "\<lambda>v. ?s3", OF framed_run s3])
  have rest: "framed c' ?rest" for c'
    by (rule framed_step [where g = "\<lambda>v. ?s2", OF framed_run s2])
  show ?thesis
    unfolding fetchFileMinimal_def [abs_def] logger_verbose_def Let_def
    by (rule framed_after_event [OF rest])
qed

section \<open>Simulated runs\<close>

lemma calls_logger_log: "calls (logger_log lg m w) = calls w"
  by (simp add: logger_log_def emit_def)

lemma calls_logger_warn: "calls (logger_warn lg m w) = calls w"
  by (simp add: logger_warn_def emit_def)

lemma calls_logger_error: "calls (logger_error lg m w) = calls w"
  by (simp add: logger_error_def emit_def)

lemma mkdirSync_calls: "mkdirSync d w = Inr w' \<Longrightarrow> calls w' = calls w"
  by (auto simp: mkdirSync_def split: sum.splits)

lemma ensureDirFor_calls: "ensureDirFor p w = Inr w' \<Longrightarrow> calls w' = calls w"
  by (auto simp: ensureDirFor_def Let_def split: if_splits dest: mkdirSync_calls)

lemma writeFileSync_calls: "writeFileSync p c w = Inr w' \<Longrightarrow> calls w' = calls w"
  by (auto simp: writeFileSync_def split: if_splits option.splits node.splits)

lemma updateManifest_calls:
  assumes "updateManifest ev p rf w = Inr w'"
  shows "calls w' = calls w"
proof -
  from assms obtain existing w1 where "ensureDirFor p w = Inr w1"
    and "writeFileSync p (textOfManifest ev (existing @ [rf])) w1 = Inr w'"
    by (auto simp: updateManifest_def split: sum.splits)
  then have "calls w1 = calls w" and "calls w' = calls w1"
    by (auto dest: ensureDirFor_calls writeFileSync_calls)
  then show ?thesis by simp
qed

lemma readManifest_error: "readManifest ev p w = Inl e \<Longrightarrow> codeOf e = ''UNKNOWN_ERROR''"
  by (auto simp: readManifest_def split: if_splits sum.splits dest: readFileSync_error)

lemma updateManifest_error: "updateManifest ev p rf w = Inl e \<Longrightarrow> codeOf e = ''UNKNOWN_ERROR''"
  by (auto simp: updateManifest_def split: sum.splits
      dest: readManifest_error ensureDirFor_error writeFileSync_error)

lemma writeDestFile_calls:
  "calls (snd (writeDestFile ev contents rf root dryRun force maxBytes lg w)) = calls w"
proof (cases "withinRoot ev root (destPath rf)")
  case False
  then show ?thesis by (simp add: writeDestFile_out_of_bounds)
next
  case within: True
  show ?thesis
  proof (cases "maxBytes < int (length contents)")
    case True
    with within show ?thesis by (simp add: writeDestFile_too_large)
  next
    case False
    then have size: "int (length contents) \<le> maxBytes" by simp
    show ?thesis
    proof (cases "existsSync w (resolve (cwd ev) [root, destPath rf]) \<and> \<not> force")
      case True
      with within size show ?thesis by (simp add: writeDestFile_skip calls_logger_warn)
    next
      case fresh: False
      show ?thesis
      proof (cases dryRun)
        case True
        with within size fresh show ?thesis
          by (simp add: writeDestFile_simulated calls_logger_log)
      next
        case False
        then have real: "dryRun = False" by simp
        let ?dest = "resolve (cwd ev) [root, destPath rf]"
        note wr = writeDestFile_writes [OF within size fresh, of lg]
        show ?thesis
        proof (cases "ensureDirFor ?dest w")
          case (Inl e)
          with wr real show ?thesis by simp
        next
          case (Inr w1)
          then have c1: "calls w1 = calls w" by (rule ensureDirFor_calls)
          show ?thesis
          proof (cases "writeFileSync ?dest contents w1")
            case (Inl e)
            with wr real Inr c1 show ?thesis by simp
          next
            case w2: (Inr w2)
            then have "calls w2 = calls w1" by (rule writeFileSync_calls)
            with wr real Inr w2 c1 show ?thesis by (simp add: calls_logger_log)
          qed
        qed
      qed
    qed
  qed
qed

lemma writeDestFile_simulation:
  assumes "withinRoot ev root (destPath rf)" and "int (length contents) \<le> maxBytes"
  shows "fst (writeDestFile ev contents rf root True force maxBytes lg w) =
           Inr (resolve (cwd ev) [root, destPath rf], False) \<and>
         fs (snd (writeDestFile ev contents rf root True force maxBytes lg w)) = fs w"
proof (cases "existsSync w (resolve (cwd ev) [root, destPath rf]) \<and> \<not> force")
  case True
  with assms show ?thesis by (simp add: writeDestFile_skip fs_logger_warn)
next
  case False
  with assms show ?thesis by (simp add: writeDestFile_simulated fs_logger_log)
qed

lemma loggerOf_dryRun: "loggerOf (opts\<lparr>opt_dryRun := b\<rparr>) = loggerOf opts"
  by (simp add: loggerOf_def)

lemma main_try_parse_error:
  "parseRef arg = Inl e \<Longrightarrow> main_try ev opts arg w = (Inl e, w)"
  by (simp add: main_try_def)

lemma main_try_fetch_error:
  "parseRef arg = Inr rf0 \<Longrightarrow>
   fetchFileMinimal ev rf0 (opt_retries opts) (opt_backoffMs opts) (loggerOf opts) w = (Inl e, w1) \<Longrightarrow>
   main_try ev opts arg w = (Inl e, w1)"
  by (simp add: main_try_def)

lemma main_try_after_fetch:
  "parseRef arg = Inr rf0 \<Longrightarrow>
   fetchFileMinimal ev rf0 (opt_retries opts) (opt_backoffMs opts) (loggerOf opts) w =
     (Inr (contents, sha), w1) \<Longrightarrow>
   main_try ev opts arg w =
     (case writeDestFile ev contents (rf0\<lparr>commitSha := Some sha\<rparr>) (opt_destRootDir opts)
             (opt_dryRun opts) (opt_force opts) (opt_maxBytes opts) (loggerOf opts) w1 of
        (Inl e, w2) \<Rightarrow> (Inl e, w2)
      | (Inr (dest, wrote), w2) \<Rightarrow>
          if \<not> opt_dryRun opts \<and> wrote \<and> \<not> opt_eject opts then
            (case updateManifest ev (opt_manifestPath opts) (rf0\<lparr>commitSha := Some sha\<rparr>) w2 of
               Inl e \<Rightarrow> (Inl e, w2)
             | Inr w3 \<Rightarrow> (Inr (rf0\<lparr>commitSha := Some sha\<rparr>, dest), w3))
          else (Inr (rf0\<lparr>commitSha := Some sha\<rparr>, dest), w2))"
  by (simp add: main_try_def Let_def)

lemma main_try_dry_vs_real:
  assumes c: "calls wd = calls wr"
  shows "calls (snd (main_try ev (opts\<lparr>opt_dryRun := True\<rparr>) arg wd)) =
           calls (snd (main_try ev (opts\<lparr>opt_dryRun := False\<rparr>) arg wr))
       \<and> fs (snd (main_try ev (opts\<lparr>opt_dryRun := True\<rparr>) arg wd)) = fs wd
       \<and> (case fst (main_try ev (opts\<lparr>opt_dryRun := True\<rparr>) arg wd) of
            Inl e \<Rightarrow> fst (main_try ev (opts\<lparr>opt_dryRun := False\<rparr>) arg wr) = Inl e
          | Inr ok \<Rightarrow>
              (case fst (main_try ev (opts\<lparr>opt_dryRun := False\<rparr>) arg wr) of
                 Inl e \<Rightarrow> codeOf e = ''UNKNOWN_ERROR''
               | Inr ok' \<Rightarrow> True))"
proof (cases "parseRef arg")
  case (Inl e)
  with c show ?thesis by (simp add: main_try_parse_error)
next
  case (Inr rf0)
  let ?D = "opts\<lparr>opt_dryRun := True\<rparr>" and ?R = "opts\<lparr>opt_dryRun := False\<rparr>"
  let ?F = "fetchFileMinimal ev rf0 (opt_retries opts) (opt_backoffMs opts) (loggerOf opts)"
  have fr: "framed (calls wd) ?F" by (rule framed_fetch)
  from framed_same [OF fr refl c [symmetric]] framed_fs [OF fr refl]
  have same: "fst (?F wd) = fst (?F wr)" and calls: "calls (snd (?F wd)) = calls (snd (?F wr))"
    and fsd: "fs (snd (?F wd)) = fs wd" by simp_all
  obtain res wd1 where fd: "?F wd = (res, wd1)" by (cases "?F wd")
  with same obtain wr1 where fr': "?F wr = (res, wr1)" by (cases "?F wr") auto
  from fd fr' calls fsd have c1: "calls wd1 = calls wr1" and fs1: "fs wd1 = fs wd" by simp_all
  show ?thesis
  proof (cases res)
    case (Inl e)
    with Inr fd fr' c1 fs1 show ?thesis
      by (simp add: main_try_fetch_error loggerOf_dryRun)
  next
    case fetched: (Inr cs)
    obtain contents sha where cs: "cs = (contents, sha)" by (cases cs)
    let ?rf = "rf0\<lparr>commitSha := Some sha\<rparr>"
    let ?lg = "loggerOf opts"
    let ?WD = "writeDestFile ev contents ?rf (opt_destRootDir opts) True (opt_force opts)
        (opt_maxBytes opts) ?lg wd1"
    let ?WR = "writeDestFile ev contents ?rf (opt_destRootDir opts) False (opt_force opts)
        (opt_maxBytes opts) ?lg wr1"
    have td: "main_try ev ?D arg wd =
        (case ?WD of (Inl e, w2) \<Rightarrow> (Inl e, w2)
         | (Inr (dest, wrote), w2) \<Rightarrow> (Inr (?rf, dest), w2))"
      using main_try_after_fetch [of arg rf0 ev ?D wd contents sha wd1] Inr fd fetched cs
      by (auto simp: loggerOf_dryRun split: prod.splits sum.splits)
    have tr: "main_try ev ?R arg wr =
        (case ?WR of (Inl e, w2) \<Rightarrow> (Inl e, w2)
         | (Inr (dest, wrote), w2) \<Rightarrow>
             if wrote \<and> \<not> opt_eject opts then
               (case updateManifest ev (opt_manifestPath opts) ?rf w2 of
                  Inl e \<Rightarrow> (Inl e, w2)
                | Inr w3 \<Rightarrow> (Inr (?rf, dest), w3))
             else (Inr (?rf, dest), w2))"
      using main_try_after_fetch [of arg rf0 ev ?R wr contents sha wr1] Inr fr' fetched cs
      by (auto simp: loggerOf_dryRun split: prod.splits sum.splits)
    have cd: "calls (snd ?WD) = calls wd1" and cr: "calls (snd ?WR) = calls wr1"
      by (rule writeDestFile_calls)+
    have calls_real: "calls (snd (main_try ev ?R arg wr)) = calls wr1"
      unfolding tr using cr
      by (auto split: prod.splits sum.splits dest: updateManifest_calls)
    have calls_dry: "calls (snd (main_try ev ?D arg wd)) = calls wd1"
      unfolding td using cd by (auto split: prod.splits sum.splits)
    show ?thesis
    proof (cases "withinRoot ev (opt_destRootDir opts) (destPath ?rf)")
      case False
      from writeDestFile_out_of_bounds [OF False] td tr c1 fs1 show ?thesis by simp
    next
      case within: True
      show ?thesis
      proof (cases "opt_maxBytes opts < int (length contents)")
        case True
        from writeDestFile_too_large [OF within True] td tr c1 fs1 show ?thesis by simp
      next
        case False
        then have size: "int (length contents) \<le> opt_maxBytes opts" by simp
        from writeDestFile_simulation [OF within size, of "opt_force opts" ?lg wd1]
        have dry_ok: "fst ?WD = Inr (resolve (cwd ev) [opt_destRootDir opts, destPath ?rf], False)"
          and dry_fs: "fs (snd ?WD) = fs wd1" by simp_all
        have d1: "fst (main_try ev ?D arg wd) =
            Inr (?rf, resolve (cwd ev) [opt_destRootDir opts, destPath ?rf])"
          unfolding td using dry_ok by (auto split: prod.splits sum.splits)
        have d2: "fs (snd (main_try ev ?D arg wd)) = fs wd"
          unfolding td using dry_ok dry_fs fs1 by (auto split: prod.splits sum.splits)
        from writeDestFile_accepts [OF within size, of False "opt_force opts" ?lg wr1]
        have "case fst (main_try ev ?R arg wr) of
                 Inl e \<Rightarrow> codeOf e = ''UNKNOWN_ERROR''
               | Inr ok' \<Rightarrow> True"
          unfolding tr
          by (auto split: prod.splits sum.splits dest: updateManifest_error)
        with d1 d2 calls_dry calls_real c1 show ?thesis by simp
      qed
    qed
  qed
qed

lemma main_item_dry_vs_real:
  assumes c: "calls wd = calls wr"
  shows "calls (snd (main_item ev (opts\<lparr>opt_dryRun := True\<rparr>) arg wd)) =
           calls (snd (main_item ev (opts\<lparr>opt_dryRun := False\<rparr>) arg wr))
       \<and> fs (snd (main_item ev (opts\<lparr>opt_dryRun := True\<rparr>) arg wd)) = fs wd
       \<and> simulationAgrees (fst (main_item ev (opts\<lparr>opt_dryRun := True\<rparr>) arg wd))
            (fst (main_item ev (opts\<lparr>opt_dryRun := False\<rparr>) arg wr))"
proof -
  let ?D = "opts\<lparr>opt_dryRun := True\<rparr>" and ?R = "opts\<lparr>opt_dryRun := False\<rparr>"
  obtain td wd1 where d: "main_try ev ?D arg wd = (td, wd1)" by (cases "main_try ev ?D arg wd")
  obtain tr wr1 where r: "main_try ev ?R arg wr = (tr, wr1)" by (cases "main_try ev ?R arg wr")
  note m = main_try_dry_vs_real [OF c, where ev = ev and opts = opts and arg = arg,
      unfolded d r fst_conv snd_conv]
  from m
  have c1: "calls wd1 = calls wr1" and f1: "fs wd1 = fs wd"
    and rel: "case td of Inl e \<Rightarrow> tr = Inl e
          | Inr ok \<Rightarrow> (case tr of Inl e \<Rightarrow> codeOf e = ''UNKNOWN_ERROR'' | Inr ok' \<Rightarrow> True)"
    by blast+
  show ?thesis
  proof (cases td)
    case (Inl e)
    with rel have "tr = Inl e" by simp
    with Inl d r c1 f1 show ?thesis
      by (simp add: main_item_def simulationAgrees_def calls_logger_error fs_logger_error)
  next
    case (Inr ok)
    with rel have "case tr of Inl e \<Rightarrow> codeOf e = ''UNKNOWN_ERROR'' | Inr ok' \<Rightarrow> True" by simp
    with Inr d r c1 f1 show ?thesis
      by (cases tr; cases ok)
         (auto simp: main_item_def simulationAgrees_def calls_logger_error fs_logger_error
            split: prod.splits)
  qed
qed

lemma main_loop_dry_vs_real:
  assumes "calls wd = calls wr"
  shows "case main_loop ev (opts\<lparr>opt_dryRun := True\<rparr>) es [] 0 wd of
     (dry, dryCode, wd') \<Rightarrow>
       (case main_loop ev (opts\<lparr>opt_dryRun := False\<rparr>) es [] 0 wr of
          (real, realCode, wr') \<Rightarrow> fs wd' = fs wd \<and> list_all2 simulationAgrees dry real)"
  using assms
proof (induction es arbitrary: wd wr)
  case Nil
  show ?case by simp
next
  case (Cons x xs)
  let ?D = "opts\<lparr>opt_dryRun := True\<rparr>" and ?R = "opts\<lparr>opt_dryRun := False\<rparr>"
  obtain rd wd1 where d: "main_item ev ?D x wd = (rd, wd1)" by (cases "main_item ev ?D x wd")
  obtain rr wr1 where r: "main_item ev ?R x wr = (rr, wr1)" by (cases "main_item ev ?R x wr")
  from main_item_dry_vs_real [OF Cons.prems, where ev = ev and opts = opts and arg = x] d r
  have c1: "calls wd1 = calls wr1" and f1: "fs wd1 = fs wd" and a: "simulationAgrees rd rr"
    by simp_all
  obtain ds dc wd' where ld: "main_loop ev ?D xs [] 0 wd1 = (ds, dc, wd')"
    by (cases "main_loop ev ?D xs [] 0 wd1") auto
  obtain rs rc wr' where lr: "main_loop ev ?R xs [] 0 wr1 = (rs, rc, wr')"
    by (cases "main_loop ev ?R xs [] 0 wr1") auto
  from Cons.IH [OF c1] ld lr have "fs wd' = fs wd1" and "list_all2 simulationAgrees ds rs"
    by simp_all
  with f1 a d r ld lr show ?case
    by (simp add: main_loop_Cons del: main_loop.simps)
qed

text \<open>
  C9, as amended. A run with simulation on leaves the file tree as it was, so it writes no
  destination file and does not touch the manifest. Its results agree, item by item, with
  those of the run with simulation off on the same references in the same world and
  environment, except that an item whose real write or manifest update fails in the file
  system (an \<open>UNKNOWN_ERROR\<close> failure of the real run) is a success of the simulation.
\<close>

theorem simulate_writes_nothing:
  "case main ev (opts\<lparr>opt_dryRun := True\<rparr>) entries w of
     (dry, dryCode, wd) \<Rightarrow>
       fs wd = fs w \<and>
       (case main ev (opts\<lparr>opt_dryRun := False\<rparr>) entries w of
          (real, realCode, wr) \<Rightarrow> list_all2 simulationAgrees dry real)"
proof -
  let ?D = "opts\<lparr>opt_dryRun := True\<rparr>" and ?R = "opts\<lparr>opt_dryRun := False\<rparr>"
  obtain ds dc wd where ld: "main_loop ev ?D entries [] 0 w = (ds, dc, wd)"
    by (cases "main_loop ev ?D entries [] 0 w") auto
  obtain rs rc wr where lr: "main_loop ev ?R entries [] 0 w = (rs, rc, wr)"
    by (cases "main_loop ev ?R entries [] 0 w") auto
  from main_loop_dry_vs_real [OF refl, where ev = ev and opts = opts and es = entries and wd = w] ld lr
  have "fs wd = fs w" and "list_all2 simulationAgrees ds rs" by simp_all
  with ld lr show ?thesis by (simp add: main_def emit_def)
qed

lemma exampleOptions_real: "exampleOptions\<lparr>opt_dryRun := False\<rparr> = exampleOptions"
  by (simp add: exampleOptions_def)

lemma example_run:
  "case main (exampleEnv gitOk) exampleOptions exampleBatch exampleWorld of
     (rs, ec, w') \<Rightarrow>
       map success rs = [True, False, True] \<and>
       map errorCode rs = [None, Some ''INVALID_PATH'', None] \<and>
       fs w' ''/out/a.txt'' = Some (File ''hello'') \<and>
       fs w' ''/out/c.txt'' = Some (File ''hello'')"
  by (simp add: run_eval exampleBatch_def)

lemma example_dry:
  "map success (fst (main (exampleEnv gitOk) (exampleOptions\<lparr>opt_dryRun := True\<rparr>)
      exampleBatch exampleWorld)) = [True, False, True]"
  by (simp add: run_eval exampleBatch_def)

theorem simulate_writes_nothing_witness:
  "fs (snd (snd (main (exampleEnv gitOk) (exampleOptions\<lparr>opt_dryRun := True\<rparr>)
      exampleBatch exampleWorld))) = fs exampleWorld
   \<and> list_all2 simulationAgrees
       (fst (main (exampleEnv gitOk) (exampleOptions\<lparr>opt_dryRun := True\<rparr>)
          exampleBatch exampleWorld))
       (fst (main (exampleEnv gitOk) exampleOptions exampleBatch exampleWorld))
   \<and> map success (fst (main (exampleEnv gitOk) (exampleOptions\<lparr>opt_dryRun := True\<rparr>)
      exampleBatch exampleWorld)) = [True, False, True]
   \<and> map success (fst (main (exampleEnv gitOk) exampleOptions exampleBatch exampleWorld)) =
       [True, False, True]"
proof -
  note t = simulate_writes_nothing [where ev = "exampleEnv gitOk" and opts = exampleOptions
      and entries = exampleBatch and w = exampleWorld,
      unfolded exampleOptions_real case_prod_beta]
  from example_run
  have "map success (fst (main (exampleEnv gitOk) exampleOptions exampleBatch exampleWorld)) =
       [True, False, True]"
    by (simp add: case_prod_beta)
  with t example_dry show ?thesis by blast
qed

lemma nested_dry:
  "map success (fst (main (exampleEnv gitOk) (exampleOptions\<lparr>opt_dryRun := True\<rparr>)
      nestedBatch exampleWorld)) = [True, True]"
  by (simp add: run_eval nestedBatch_def)

lemma nested_real:
  "case main (exampleEnv gitOk) exampleOptions nestedBatch exampleWorld of
     (rs, ec, w') \<Rightarrow>
       map success rs = [True, False] \<and> map errorCode rs = [None, Some ''UNKNOWN_ERROR'']"
  by (simp add: run_eval nestedBatch_def)

text \<open>
  C9, as stated, fails: the first reference writes the file \<open>/out/a\<close>, the second needs
  \<open>/out/a\<close> as a directory, so the real run fails on it where the simulation succeeds.
\<close>

theorem simulation_misses_write_failure:
  "map success (fst (main (exampleEnv gitOk) (exampleOptions\<lparr>opt_dryRun := True\<rparr>)
      nestedBatch exampleWorld)) = [True, True]
   \<and> map success (fst (main (exampleEnv gitOk) (exampleOptions\<lparr>opt_dryRun := False\<rparr>)
      nestedBatch exampleWorld)) = [True, False]
   \<and> map errorCode (fst (main (exampleEnv gitOk) (exampleOptions\<lparr>opt_dryRun := False\<rparr>)
      nestedBatch exampleWorld)) = [None, Some ''UNKNOWN_ERROR'']"
  using nested_dry nested_real by (simp add: exampleOptions_real case_prod_beta)


end
